theory Spec2Isabelle
  imports Main "HOL-Library.Product_Lexorder" "HOL-Library.Multiset"
begin

section \<open>Python values and built-ins used by \<open>btplotting/app.py\<close>\<close>

text \<open>
  The plotting application annotates backtrader objects through their \<open>plotinfo\<close>
  namespace, reads a rule dictionary \<open>plotconfig\<close> whose keys are strings of the shape
  \<open>kind:target\<close>, and keeps its figure pages in a dictionary keyed by \<open>figid\<close>.
  Exceptions are values: every \<open>raise\<close> of the source, and every built-in that can
  raise on the path of a rule, is a branch returning an \<open>error\<close>. A Python string is
  the list of its code points, each below 256; strings with other code points are not
  values of this model.
\<close>

datatype pyval = VNone | VBool bool | VInt int | VStr string

datatype error =
    ValueError
  | IndexError
  | KeyError
  | AttributeError
  | ReError
  | UnknownObj
  | UnknownConfigType string
  | FigurePageExists int
  | FigurePageMissing int
  | UnsupportedSource

text \<open>\<open>str.split(sep)\<close> with a one-character separator: never returns the empty list.\<close>

fun py_split :: "char \<Rightarrow> string \<Rightarrow> string list" where
  "py_split sep [] = [[]]"
| "py_split sep (c # cs) =
     (if c = sep then [] # py_split sep cs
      else (case py_split sep cs of
              [] \<Rightarrow> [[c]]
            | p # ps \<Rightarrow> (c # p) # ps))"

text \<open>
  \<open>int(s)\<close> in base 10: the whitespace around the number is skipped, one sign is
  allowed, the rest is decimal digits with single underscores between digits.
  Anything else raises \<open>ValueError\<close> (\<open>None\<close> here). The whitespace \<open>int\<close> skips is the
  space and the characters \<open>\t \n \v \f \r\<close>, and, of the code points from 128 on, the
  two Unicode spaces below 256, which \<open>int\<close> turns into spaces first (\<open>0x85\<close> and
  \<open>0xA0\<close>); the separators \<open>0x1C\<close> to \<open>0x1F\<close> are not skipped. Below 256 the only decimal
  digits are \<open>0\<close> to \<open>9\<close>.
\<close>

definition is_space :: "char \<Rightarrow> bool" where
  "is_space c \<longleftrightarrow>
     c \<in> set [CHR '' '', CHR 0x09, CHR 0x0A, CHR 0x0B, CHR 0x0C, CHR 0x0D,
              CHR 0x85, CHR 0xA0]"

definition py_strip :: "string \<Rightarrow> string" where
  "py_strip s = rev (dropWhile is_space (rev (dropWhile is_space s)))"

definition digit_chars :: string where
  "digit_chars = ''0123456789''"

fun index_of :: "'a \<Rightarrow> 'a list \<Rightarrow> nat option" where
  "index_of x [] = None"
| "index_of x (y # ys) =
     (if x = y then Some 0 else map_option Suc (index_of x ys))"

definition digit_val :: "char \<Rightarrow> nat option" where
  "digit_val c = index_of c digit_chars"

fun digits_acc :: "nat \<Rightarrow> string \<Rightarrow> nat option" where
  "digits_acc a [] = Some a"
| "digits_acc a (c # cs) =
     (if c = CHR ''_'' then
        (case cs of
           [] \<Rightarrow> None
         | d # ds \<Rightarrow> if d = CHR ''_'' then None else digits_acc a cs)
      else (case digit_val c of
              None \<Rightarrow> None
            | Some v \<Rightarrow> digits_acc (10 * a + v) cs))"

text \<open>
  The interpreter refuses to convert a string of more than \<open>sys.get_int_max_str_digits()\<close>
  digits, 4300 unless configured otherwise, with \<open>ValueError\<close>; underscores are not
  counted.
\<close>

definition int_max_str_digits :: nat where
  "int_max_str_digits = 4300"

definition py_nat :: "string \<Rightarrow> nat option" where
  "py_nat s =
     (case s of
        [] \<Rightarrow> None
      | c # cs \<Rightarrow>
          (case digit_val c of
             None \<Rightarrow> None
           | Some v \<Rightarrow>
               (case digits_acc v cs of
                  None \<Rightarrow> None
                | Some n \<Rightarrow>
                    if int_max_str_digits < length (filter (\<lambda>d. digit_val d \<noteq> None) s)
                    then None else Some n)))"

definition py_int :: "string \<Rightarrow> int option" where
  "py_int s =
     (case py_strip s of
        [] \<Rightarrow> None
      | c # cs \<Rightarrow>
          if c = CHR ''-'' then map_option (\<lambda>n. - int n) (py_nat cs)
          else if c = CHR ''+'' then map_option int (py_nat cs)
          else map_option int (py_nat (c # cs)))"

text \<open>\<open>str(n)\<close> for a non-negative integer, as formatted by an f-string.\<close>

fun py_str :: "nat \<Rightarrow> string" where
  "py_str n =
     (if n < 10 then [digit_chars ! n]
      else py_str (n div 10) @ [digit_chars ! (n mod 10)])"

declare py_str.simps [simp del]

subsection \<open>Regular expressions\<close>

text \<open>
  A compiled pattern of the \<open>re\<close> module is given by its match test: \<open>pat s pos\<close> holds
  when the pattern matches in the subject \<open>s\<close> with the match starting at position
  \<open>pos\<close>, as \<open>pat.match(s, pos)\<close> decides it. The test sees the whole subject, so
  anchors, look-around and back-references are within its reach. \<open>re.match\<close> asks for
  a match starting at position 0; \<open>re.search\<close> asks for a match starting anywhere,
  from position 0 to the end of the subject.
\<close>

type_synonym pattern = "string \<Rightarrow> nat \<Rightarrow> bool"

definition re_match :: "pattern \<Rightarrow> string \<Rightarrow> bool" where
  "re_match pat s = pat s 0"

definition re_search :: "pattern \<Rightarrow> string \<Rightarrow> bool" where
  "re_search pat s = list_ex (pat s) [0..<Suc (length s)]"

text \<open>
  A pattern without metacharacters denotes itself: it matches at a position when the
  subject continues with the pattern's characters there.
\<close>

definition literal :: "string \<Rightarrow> pattern" where
  "literal p = (\<lambda>s pos. take (length p) (drop pos s) = p)"

definition is_meta :: "char \<Rightarrow> bool" where
  "is_meta c \<longleftrightarrow> c \<in> set (''.^$*+?{}[]|()'' @ [CHR 0x5C])"

text \<open>
  \<open>re.compile\<close> as far as the sample setting below needs it: on a pattern without
  metacharacters. On any other pattern this function takes no position, its value
  there is left unspecified.
\<close>

definition literal_compile :: "string \<Rightarrow> pattern option" where
  "literal_compile p = (if list_ex is_meta p then undefined p else Some (literal p))"

section \<open>Plot objects, figure kinds and collaborators\<close>

text \<open>
  A plot object is referred to by its identity; its mutable \<open>plotinfo\<close> namespace lives
  in a store. \<open>hasattr(obj.plotinfo, k)\<close> is \<open>k \<in> dom\<close>, \<open>setattr\<close> is a map update.
\<close>

type_synonym oid = nat
type_synonym plotinfo = "string \<rightharpoonup> pyval"
type_synonym store = "oid \<Rightarrow> plotinfo"
type_synonym config = "(string \<times> pyval) list"
type_synonym plotconfig = "(string \<times> config) list"

text \<open>
  Modelled from the spec: the enumeration \<open>FigureType\<close> of \<open>btplotting/figure.py\<close> is
  not among the sources. Its members are the ones \<open>app.py\<close> names (\<open>DATA\<close>, \<open>OBS\<close>,
  \<open>IND\<close>, \<open>VOL\<close>; the spec's closed set of figure kinds) and \<open>.name\<close> is the member's
  name. The integer \<open>.value\<close> of a member is a parameter wherever it is used.
\<close>

datatype FigureType = OBS | DATA | VOL | IND

text \<open>Modelled from the spec: \<open>FigureType.X.name\<close>, the name of the member as an
  \<open>Enum\<close> gives it; the enumeration itself is not among the sources.\<close>

fun type_name :: "FigureType \<Rightarrow> string" where
  "type_name OBS = ''OBS''"
| "type_name DATA = ''DATA''"
| "type_name VOL = ''VOL''"
| "type_name IND = ''IND''"

text \<open>
  Modelled from the spec: the class \<open>Figure\<close> of \<open>btplotting/figure.py\<close> is not among
  the sources. A figure is one master with its children and a kind (what \<open>app.py\<close>
  reads as \<open>f.master\<close>, \<open>f.childs\<close> and \<open>f.get_type()\<close>); it owns a bokeh figure
  whose time axis \<open>figure.x_range\<close> refers to a range object, here the identity of that
  object. Which range object a new figure has, and what the calls \<open>plot\<close>,
  \<open>plot_volume\<close> and \<open>apply\<close> do to a figure, are parameters.
\<close>

record figure =
  master :: oid
  childs :: "oid list"
  ftype :: FigureType
  x_range :: nat

text \<open>
  A strategy as the introspection helpers of \<open>btplotting/utils.py\<close> (not among the
  sources) describe it:
  \<^item> \<open>get_plotobjs include_non_plotable order_by_plotmaster store\<close>: the ordered
    dictionary master to children, which may depend on the objects' \<open>plotinfo\<close>;
  \<^item> \<open>strat_analyzers\<close>: \<open>[a for _, a in strategy.analyzers.getitems()]\<close>;
  \<^item> \<open>get_datanames\<close>: \<open>get_datanames(strategy, filter=False)\<close>;
  \<^item> \<open>get_smallest_dataname\<close>: the clock feed among the given names.
\<close>

record strategy =
  get_plotobjs :: "bool \<Rightarrow> bool \<Rightarrow> store \<Rightarrow> (oid \<times> oid list) list"
  strat_analyzers :: "oid list"
  get_datanames :: "string list"
  get_smallest_dataname :: "string option list \<Rightarrow> string option"

text \<open>The argument \<open>obj\<close> of \<open>create_figurepage\<close>: a strategy, an optimisation result
  (given by its analyzers), or anything else.\<close>

datatype source = Strategy strategy | OptReturn "oid list" | Unsupported

text \<open>
  Modelled from the spec: the class \<open>FigurePage\<close> of \<open>btplotting/figure.py\<close> is not
  among the sources. A page holds its source object, the figures, the analyzers and the
  data clock; \<open>reset\<close> empties the figure set and the analyzers.
\<close>

record figurepage =
  fp_source :: source
  figures :: "figure list"
  analyzers :: "oid list"
  data_clock :: "string option option"
  data_clock_objs :: "(string option \<times> oid list) list"
  cds_columns :: "oid list option"

text \<open>Modelled from the spec: the constructor \<open>FigurePage(obj, scheme)\<close>, whose class
  is not among the sources: a page for \<open>obj\<close> with no figures, no analyzers and no
  data clock yet.\<close>

definition FigurePage :: "source \<Rightarrow> figurepage" where
  "FigurePage obj =
     \<lparr>fp_source = obj, figures = [], analyzers = [], data_clock = None,
      data_clock_objs = [], cds_columns = None\<rparr>"

definition fp_strategy :: "figurepage \<Rightarrow> strategy option" where
  "fp_strategy fp = (case fp_source fp of Strategy s \<Rightarrow> Some s | _ \<Rightarrow> None)"

definition fp_optreturn :: "figurepage \<Rightarrow> oid list option" where
  "fp_optreturn fp = (case fp_source fp of OptReturn r \<Rightarrow> Some r | _ \<Rightarrow> None)"

text \<open>Modelled from the spec: \<open>FigurePage.reset\<close>, not among the sources, resets the
  page's figure set; the analyzers, which the callers refill with \<open>+=\<close> right after,
  are emptied with it.\<close>

definition reset :: "figurepage \<Rightarrow> figurepage" where
  "reset fp = fp\<lparr>figures := [], analyzers := []\<rparr>"

text \<open>
  The collaborators of \<open>app.py\<close> that are not among the sources, taken as parameters:
  \<^item> \<open>is_strategy d\<close>: \<open>isinstance(d, bt.Strategy)\<close>;
  \<^item> \<open>get_type obj\<close>: \<open>FigureType.get_type(obj)\<close>, \<open>None\<close> when it raises;
  \<^item> \<open>get_obj name\<close>: \<open>FigureType.get_obj[name]\<close>, the class a category name stands
    for, given by its \<open>isinstance\<close> test; \<open>None\<close> when the lookup raises;
  \<^item> \<open>obj2label obj plotinfo\<close>: the display label of \<open>helper/label.py\<close>;
  \<^item> \<open>re_compile\<close>: the pattern compiler of the \<open>re\<close> module, giving the compiled
    pattern's match test, \<open>None\<close> on \<open>re.error\<close>;
  \<^item> \<open>get_dataname obj\<close>: \<open>utils.get_dataname(obj)\<close>, \<open>None\<close> for \<open>False\<close>;
  \<^item> \<open>type_value\<close>: the \<open>.value\<close> of a \<open>FigureType\<close> member;
  \<^item> \<open>get_plotorder store f\<close>: \<open>Figure.get_plotorder\<close>;
  \<^item> \<open>fill_data fp\<close>: what \<open>get_data\<close> and \<open>set_cds_columns_from_df\<close> leave on the
    page; both run on the \<open>DataClockHandler\<close> and on pandas alone;
  \<^item> \<open>figure_range fp m t\<close>: the range object of the figure that the constructor
    \<open>Figure\<close> builds on the page \<open>fp\<close> for the master \<open>m\<close> with kind \<open>t\<close>;
  \<^item> \<open>figure_plot f obj\<close>, \<open>figure_plot_volume f obj\<close>, \<open>figure_apply f\<close>: the figure
    after \<open>f.plot(obj)\<close>, \<open>f.plot_volume(obj)\<close> and \<open>f.apply()\<close>; a call on one figure
    leaves the other figures as they are;
  \<^item> \<open>page_apply fp\<close>: the page after \<open>fp.apply()\<close>.
  The argument \<open>filter\<close> of the source is represented by the test
  \<open>filter_obj(\<cdot>, filter)\<close> it induces on plot objects.
\<close>

record ext =
  is_strategy :: "oid \<Rightarrow> bool"
  get_type :: "oid \<Rightarrow> FigureType option"
  get_obj :: "string \<Rightarrow> (oid \<Rightarrow> bool) option"
  obj2label :: "oid \<Rightarrow> plotinfo \<Rightarrow> string"
  re_compile :: "string \<Rightarrow> pattern option"
  get_dataname :: "oid \<Rightarrow> string option"
  type_value :: "FigureType \<Rightarrow> int"
  get_plotorder :: "store \<Rightarrow> figure \<Rightarrow> int"
  fill_data :: "figurepage \<Rightarrow> error + figurepage"
  figure_range :: "figurepage \<Rightarrow> oid \<Rightarrow> FigureType \<Rightarrow> nat"
  figure_plot :: "figure \<Rightarrow> oid \<Rightarrow> figure"
  figure_plot_volume :: "figure \<Rightarrow> oid \<Rightarrow> figure"
  figure_apply :: "figure \<Rightarrow> figure"
  page_apply :: "figurepage \<Rightarrow> figurepage"

text \<open>The state of a \<open>BacktraderPlotting\<close> instance, with the plot objects' store.\<close>

record app =
  scheme_volume :: bool
  scheme_voloverlay :: bool
  plotconfig :: "plotconfig option"
  figurepages :: "int \<rightharpoonup> figurepage"
  store :: store

section \<open>\<open>_configure_plotobject\<close>\<close>

text \<open>\<open>apply_config\<close>: \<open>setattr(obj.plotinfo, k, v)\<close> for every item of the override set.\<close>

fun apply_config :: "plotinfo \<Rightarrow> config \<Rightarrow> plotinfo" where
  "apply_config pinfo [] = pinfo"
| "apply_config pinfo ((k, v) # kvs) = apply_config (pinfo(k \<mapsto> v)) kvs"

text \<open>
  One turn of the loop over \<open>plotconfig.items()\<close>, up to the decision whether
  \<open>apply_config\<close> is called: \<open>Inr True\<close> when it is, \<open>Inr False\<close> when the turn ends
  without it (no match, or \<open>continue\<close>), \<open>Inl e\<close> when the turn raises.
\<close>

definition rule_applies ::
  "ext \<Rightarrow> oid \<Rightarrow> plotinfo \<Rightarrow> nat \<Rightarrow> string \<Rightarrow> error + bool" where
  "rule_applies X obj pinfo idx k =
     (case py_split CHR '':'' k of
        [ctype, target] \<Rightarrow>
          if ctype = ''r'' then
            (case re_compile X target of
               None \<Rightarrow> Inl ReError
             | Some pat \<Rightarrow> Inr (re_match pat (obj2label X obj pinfo)))
          else if ctype = [] then Inl IndexError
          else if hd ctype = CHR ''#'' then
            (case py_split CHR ''-'' target of
               [target_type, target_idx] \<Rightarrow>
                 (case get_obj X target_type of
                    None \<Rightarrow> Inl KeyError
                  | Some cls \<Rightarrow>
                      if \<not> cls obj then Inr False
                      else (case py_int target_idx of
                              None \<Rightarrow> Inl ValueError
                            | Some n \<Rightarrow> Inr (\<not> n \<noteq> int idx)))
             | _ \<Rightarrow> Inl ValueError)
          else if ctype = ''id'' then
            (case pinfo ''plotid'' of
               None \<Rightarrow> Inl AttributeError
             | Some plotid \<Rightarrow> Inr (\<not> (plotid = VNone \<or> plotid \<noteq> VStr target)))
          else Inl (UnknownConfigType k)
      | _ \<Rightarrow> Inl ValueError)"

text \<open>
  The loop over the rules. The object is mutated in place, so an exception leaves the
  overrides of the earlier rules on it: the result is the error, if any, and the
  \<open>plotinfo\<close> reached.
\<close>

fun config_loop ::
  "ext \<Rightarrow> oid \<Rightarrow> nat \<Rightarrow> plotconfig \<Rightarrow> plotinfo \<Rightarrow> error option \<times> plotinfo" where
  "config_loop X obj idx [] pinfo = (None, pinfo)"
| "config_loop X obj idx ((k, config) # rest) pinfo =
     (case rule_applies X obj pinfo idx k of
        Inl e \<Rightarrow> (Some e, pinfo)
      | Inr b \<Rightarrow>
          config_loop X obj idx rest (if b then apply_config pinfo config else pinfo))"

text \<open>The identity defaults of lines 131 to 134.\<close>

definition patch_defaults ::
  "ext \<Rightarrow> oid \<Rightarrow> nat \<Rightarrow> plotinfo \<Rightarrow> error + plotinfo" where
  "patch_defaults X obj idx pinfo =
     (case (if ''plotid'' \<notin> dom pinfo then
              (case get_type X obj of
                 None \<Rightarrow> Inl UnknownObj
               | Some t \<Rightarrow> Inr (pinfo(''plotid'' \<mapsto> VStr (type_name t @ py_str idx))))
            else Inr pinfo) of
        Inl e \<Rightarrow> Inl e
      | Inr p1 \<Rightarrow>
          Inr (if ''plotorder'' \<notin> dom p1 then p1(''plotorder'' \<mapsto> VInt 0) else p1))"

definition configure_plotobject ::
  "ext \<Rightarrow> plotconfig option \<Rightarrow> oid \<Rightarrow> nat \<Rightarrow> plotinfo \<Rightarrow> error option \<times> plotinfo" where
  "configure_plotobject X pc obj idx pinfo =
     (case patch_defaults X obj idx pinfo of
        Inl e \<Rightarrow> (Some e, pinfo)
      | Inr p1 \<Rightarrow>
          (case pc of
             None \<Rightarrow> (None, p1)
           | Some rules \<Rightarrow> config_loop X obj idx rules p1))"

text \<open>
  The dispatch on the rule key, as a test: the key splits at its colon into a kind and
  a target, and the kind is \<open>r\<close>, starts with \<open>#\<close>, or is \<open>id\<close>.
\<close>

definition known_kind :: "string \<Rightarrow> bool" where
  "known_kind k =
     (case py_split CHR '':'' k of
        [ctype, target] \<Rightarrow>
          ctype = ''r'' \<or> (ctype \<noteq> [] \<and> hd ctype = CHR ''#'') \<or> ctype = ''id''
      | _ \<Rightarrow> False)"

section \<open>\<open>_configure_plotting\<close>\<close>

text \<open>
  The traversal of lines 116 to 123 with its counter \<open>i\<close>: the inner loop over the
  children of one master, then the loop over the masters. An exception stops the
  traversal; the objects configured so far keep their annotations.
\<close>

fun configure_childs ::
  "ext \<Rightarrow> plotconfig option \<Rightarrow> oid list \<Rightarrow> nat \<Rightarrow> store \<Rightarrow> error option \<times> nat \<times> store" where
  "configure_childs X pc [] i st = (None, i, st)"
| "configure_childs X pc (s # ss) i st =
     (case configure_plotobject X pc s i (st s) of
        (Some e, p) \<Rightarrow> (Some e, i, st(s := p))
      | (None, p) \<Rightarrow> configure_childs X pc ss (Suc i) (st(s := p)))"

fun configure_objs ::
  "ext \<Rightarrow> plotconfig option \<Rightarrow> (oid \<times> oid list) list \<Rightarrow> nat \<Rightarrow> store
     \<Rightarrow> error option \<times> nat \<times> store" where
  "configure_objs X pc [] i st = (None, i, st)"
| "configure_objs X pc ((d, ss) # rest) i st =
     (case (if \<not> is_strategy X d then
              (case configure_plotobject X pc d i (st d) of
                 (Some e, p) \<Rightarrow> (Some e, i, st(d := p))
               | (None, p) \<Rightarrow> (None, Suc i, st(d := p)))
            else (None, i, st)) of
        (Some e, i1, st1) \<Rightarrow> (Some e, i1, st1)
      | (None, i1, st1) \<Rightarrow>
          (case configure_childs X pc ss i1 st1 of
             (Some e, i2, st2) \<Rightarrow> (Some e, i2, st2)
           | (None, i2, st2) \<Rightarrow> configure_objs X pc rest i2 st2))"

definition get_figurepage :: "app \<Rightarrow> int \<Rightarrow> error + figurepage" where
  "get_figurepage A figid =
     (case figurepages A figid of
        None \<Rightarrow> Inl (FigurePageMissing figid)
      | Some fp \<Rightarrow> Inr fp)"

definition configure_plotting :: "ext \<Rightarrow> int \<Rightarrow> app \<Rightarrow> error option \<times> app" where
  "configure_plotting X figid A =
     (case get_figurepage A figid of
        Inl e \<Rightarrow> (Some e, A)
      | Inr fp \<Rightarrow>
          (case fp_strategy fp of
             None \<Rightarrow> (Some AttributeError, A)
           | Some s \<Rightarrow>
               (case configure_objs X (plotconfig A)
                       (get_plotobjs s True False (store A)) 0 (store A) of
                  (e, i, st) \<Rightarrow> (e, A\<lparr>store := st\<rparr>))))"

text \<open>
  The same traversal written flat, for comparison: the sequence of objects that are
  configured, each with its ordinal.
\<close>

definition traversal :: "ext \<Rightarrow> (oid \<times> oid list) list \<Rightarrow> oid list" where
  "traversal X objs =
     concat (map (\<lambda>(d, ss). (if is_strategy X d then [] else [d]) @ ss) objs)"

fun configure_seq ::
  "ext \<Rightarrow> plotconfig option \<Rightarrow> (nat \<times> oid) list \<Rightarrow> store \<Rightarrow> error option \<times> store" where
  "configure_seq X pc [] st = (None, st)"
| "configure_seq X pc ((i, obj) # rest) st =
     (case configure_plotobject X pc obj i (st obj) of
        (Some e, p) \<Rightarrow> (Some e, st(obj := p))
      | (None, p) \<Rightarrow> configure_seq X pc rest (st(obj := p)))"

text \<open>The outcome of the traversal without the final value of its counter.\<close>

definition drop_counter :: "error option \<times> nat \<times> store \<Rightarrow> error option \<times> store" where
  "drop_counter r = (fst r, snd (snd r))"

text \<open>No configured rule sets the attribute \<open>plotid\<close>.\<close>

definition keeps_plotid :: "plotconfig option \<Rightarrow> bool" where
  "keeps_plotid pc =
     (case pc of
        None \<Rightarrow> True
      | Some rules \<Rightarrow> \<forall>(k, cfg) \<in> set rules. ''plotid'' \<notin> fst ` set cfg)"

section \<open>\<open>_get_plotobjects\<close>\<close>

text \<open>\<open>d[k] = v\<close> on an insertion-ordered dictionary.\<close>

fun dict_set :: "'k \<Rightarrow> 'v \<Rightarrow> ('k \<times> 'v) list \<Rightarrow> ('k \<times> 'v) list" where
  "dict_set k v [] = [(k, v)]"
| "dict_set k v ((k', v') # kvs) =
     (if k = k' then (k, v) # kvs else (k', v') # dict_set k v kvs)"

text \<open>
  The loop of lines 174 to 181 over the dictionary \<open>objs\<close>, with the dictionary
  \<open>filtered\<close> built so far. Beside it the loop records the sequence of objects on which
  the filter test was called.
\<close>

fun get_plotobjects_loop ::
  "(oid \<Rightarrow> bool) \<Rightarrow> (oid \<times> oid list) list \<Rightarrow> (oid \<times> oid list) list \<Rightarrow> oid list
     \<Rightarrow> (oid \<times> oid list) list \<times> oid list" where
  "get_plotobjects_loop flt [] filtered tested = (filtered, tested)"
| "get_plotobjects_loop flt ((o', cs) # rest) filtered tested =
     (if flt o' then get_plotobjects_loop flt rest filtered (tested @ [o'])
      else get_plotobjects_loop flt rest
             (dict_set o' (filter (\<lambda>c. \<not> flt c) cs) filtered)
             (tested @ o' # cs))"

definition filter_objs ::
  "(oid \<Rightarrow> bool) \<Rightarrow> (oid \<times> oid list) list \<Rightarrow> (oid \<times> oid list) list \<times> oid list" where
  "filter_objs flt objs = get_plotobjects_loop flt objs [] []"

definition get_plotobjects ::
  "(oid \<Rightarrow> bool) \<Rightarrow> int \<Rightarrow> app \<Rightarrow> error + (oid \<times> oid list) list" where
  "get_plotobjects flt figid A =
     (case get_figurepage A figid of
        Inl e \<Rightarrow> Inl e
      | Inr fp \<Rightarrow>
          (case fp_strategy fp of
             None \<Rightarrow> Inl AttributeError
           | Some s \<Rightarrow> Inr (fst (filter_objs flt (get_plotobjs s False True (store A))))))"

section \<open>\<open>_blueprint_strategy\<close>\<close>

text \<open>
  Modelled from the spec: the constructor \<open>Figure(fp, scheme, master, childs, type)\<close>,
  whose class is not among the sources. The kind is the one given, or
  \<open>FigureType.get_type(master)\<close> when none is given (raising when that raises); the
  range object of the new figure is the parameter \<open>figure_range\<close>.
\<close>

definition Figure ::
  "ext \<Rightarrow> figurepage \<Rightarrow> oid \<Rightarrow> oid list \<Rightarrow> FigureType option \<Rightarrow> error + figure" where
  "Figure X fp m cs ty =
     (case (case ty of None \<Rightarrow> get_type X m | Some t \<Rightarrow> Some t) of
        None \<Rightarrow> Inl UnknownObj
      | Some t \<Rightarrow>
          Inr \<lparr>master = m, childs = cs, ftype = t, x_range = figure_range X fp m t\<rparr>)"

text \<open>
  Lines 198 to 209: one figure per surviving master; the master is plotted first,
  then the children in order, then the figure is applied.
\<close>

fun create_figures ::
  "ext \<Rightarrow> figurepage \<Rightarrow> (oid \<times> oid list) list \<Rightarrow> error + figure list" where
  "create_figures X fp [] = Inr []"
| "create_figures X fp ((parent, cs) # rest) =
     (case Figure X fp parent cs None of
        Inl e \<Rightarrow> Inl e
      | Inr f \<Rightarrow>
          (case create_figures X fp rest of
             Inl e \<Rightarrow> Inl e
           | Inr fs \<Rightarrow>
               Inr (figure_apply X (fold (\<lambda>c g. figure_plot X g c) (parent # cs) f) # fs)))"

text \<open>Lines 211 to 213: \<open>figures[i].figure.x_range = figures[0].figure.x_range\<close>.\<close>

definition link_axis :: "figure list \<Rightarrow> figure list" where
  "link_axis figs =
     fold (\<lambda>i fs. fs[i := (fs ! i)\<lparr>x_range := x_range (fs ! 0)\<rparr>]) [1..<length figs] figs"

text \<open>
  Lines 219 to 231: one volume figure per figure of kind \<open>DATA\<close>, each appended to the
  page's figures as soon as it is applied.
\<close>

fun volume_figures :: "ext \<Rightarrow> figure list \<Rightarrow> figurepage \<Rightarrow> error option \<times> figurepage" where
  "volume_figures X [] fp = (None, fp)"
| "volume_figures X (f # fs) fp =
     (if \<not> ftype f = DATA then volume_figures X fs fp
      else (case Figure X fp (master f) [] (Some VOL) of
              Inl e \<Rightarrow> (Some e, fp)
            | Inr v \<Rightarrow>
                volume_figures X fs
                  (fp\<lparr>figures := figures fp
                        @ [figure_apply X (figure_plot_volume X v (master f))]\<rparr>)))"

text \<open>
  Lines 188 to 231, the composition of the page's figures: everything
  \<open>_blueprint_strategy\<close> does before the page-level call \<open>fp.apply()\<close> of line 235.
\<close>

definition compose_figures ::
  "ext \<Rightarrow> (oid \<Rightarrow> bool) \<Rightarrow> int \<Rightarrow> app \<Rightarrow> error option \<times> app" where
  "compose_figures X flt figid A =
     (case get_figurepage A figid of
        Inl e \<Rightarrow> (Some e, A)
      | Inr fp0 \<Rightarrow>
          (let fp1 = reset fp0;
               A1 = A\<lparr>figurepages := (figurepages A)(figid \<mapsto> fp1)\<rparr>
           in case fp_strategy fp1 of
                None \<Rightarrow> (Some AttributeError, A1)
              | Some s \<Rightarrow>
                  (let fp2 = fp1\<lparr>analyzers := analyzers fp1 @ strat_analyzers s\<rparr>;
                       A2 = A1\<lparr>figurepages := (figurepages A1)(figid \<mapsto> fp2)\<rparr>
                   in case get_plotobjects flt figid A2 of
                        Inl e \<Rightarrow> (Some e, A2)
                      | Inr objects \<Rightarrow>
                          (case create_figures X fp2 objects of
                             Inl e \<Rightarrow> (Some e, A2)
                           | Inr figs \<Rightarrow>
                               (let linked = link_axis figs;
                                    fp3 = fp2\<lparr>figures := figures fp2 @ linked\<rparr>
                                in if scheme_volume A \<and> scheme_voloverlay A = False then
                                     (case volume_figures X linked fp3 of
                                        (e, fp4) \<Rightarrow>
                                          (e, A2\<lparr>figurepages :=
                                                   (figurepages A2)(figid \<mapsto> fp4)\<rparr>))
                                   else
                                     (None,
                                      A2\<lparr>figurepages :=
                                           (figurepages A2)(figid \<mapsto> fp3)\<rparr>))))))"

definition blueprint_strategy ::
  "ext \<Rightarrow> (oid \<Rightarrow> bool) \<Rightarrow> int \<Rightarrow> app \<Rightarrow> error option \<times> app" where
  "blueprint_strategy X flt figid A =
     (case compose_figures X flt figid A of
        (Some e, A1) \<Rightarrow> (Some e, A1)
      | (None, A1) \<Rightarrow>
          (case get_figurepage A1 figid of
             Inl e \<Rightarrow> (Some e, A1)
           | Inr fp \<Rightarrow>
               (None, A1\<lparr>figurepages := (figurepages A1)(figid \<mapsto> page_apply X fp)\<rparr>)))"

definition blueprint_optreturn :: "int \<Rightarrow> app \<Rightarrow> error option \<times> app" where
  "blueprint_optreturn figid A =
     (case get_figurepage A figid of
        Inl e \<Rightarrow> (Some e, A)
      | Inr fp0 \<Rightarrow>
          (case fp_optreturn fp0 of
             None \<Rightarrow>
               (Some AttributeError,
                A\<lparr>figurepages := (figurepages A)(figid \<mapsto> reset fp0)\<rparr>)
           | Some r \<Rightarrow>
               (None,
                A\<lparr>figurepages := (figurepages A)(figid \<mapsto>
                      (reset fp0)\<lparr>analyzers := analyzers (reset fp0) @ r\<rparr>)\<rparr>)))"

section \<open>\<open>_create_data_clock\<close>\<close>

text \<open>\<open>objs[k].append(v)\<close> on a \<open>defaultdict(list)\<close>.\<close>

fun dd_append :: "'k \<Rightarrow> 'v \<Rightarrow> ('k \<times> 'v list) list \<Rightarrow> ('k \<times> 'v list) list" where
  "dd_append k v [] = [(k, [v])]"
| "dd_append k v ((k', vs) # kvs) =
     (if k = k' then (k', vs @ [v]) # kvs else (k', vs) # dd_append k v kvs)"

definition collect_clock_objs ::
  "ext \<Rightarrow> figure list \<Rightarrow> (string option \<times> oid list) list" where
  "collect_clock_objs X figs =
     fold (\<lambda>f objs. fold (\<lambda>c. dd_append (get_dataname X c) c) (master f # childs f) objs)
       figs []"

definition create_data_clock :: "ext \<Rightarrow> int \<Rightarrow> app \<Rightarrow> error option \<times> app" where
  "create_data_clock X figid A =
     (case get_figurepage A figid of
        Inl e \<Rightarrow> (Some e, A)
      | Inr fp \<Rightarrow>
          (case fp_strategy fp of
             None \<Rightarrow> (Some AttributeError, A)
           | Some s \<Rightarrow>
               (let objs = collect_clock_objs X (figures fp);
                    smallest = get_smallest_dataname s (map fst objs)
                in (None,
                    A\<lparr>figurepages := (figurepages A)(figid \<mapsto>
                          fp\<lparr>data_clock := Some smallest, data_clock_objs := objs\<rparr>)\<rparr>))))"

section \<open>\<open>create_figurepage\<close>\<close>

text \<open>
  The page is bound under \<open>figid\<close> before the kind of \<open>obj\<close> is looked at. The value
  returned by the source on success, \<open>(figid, fp)\<close>, is the identifier passed in and the
  page bound under it. The arguments \<open>start\<close> and \<open>end\<close> only reach \<open>get_data\<close>, which is
  the collaborator \<open>fill_data\<close> here.
\<close>

definition create_figurepage ::
  "ext \<Rightarrow> source \<Rightarrow> int \<Rightarrow> (oid \<Rightarrow> bool) \<Rightarrow> bool \<Rightarrow> app \<Rightarrow> error option \<times> app" where
  "create_figurepage X obj figid flt filldata A =
     (let fp = FigurePage obj
      in if figid \<in> dom (figurepages A) then (Some (FigurePageExists figid), A)
         else
           (let A1 = A\<lparr>figurepages := (figurepages A)(figid \<mapsto> fp)\<rparr>
            in case obj of
                 Strategy s \<Rightarrow>
                   (case configure_plotting X figid A1 of
                      (Some e, A2) \<Rightarrow> (Some e, A2)
                    | (None, A2) \<Rightarrow>
                        (case blueprint_strategy X flt figid A2 of
                           (Some e, A3) \<Rightarrow> (Some e, A3)
                         | (None, A3) \<Rightarrow>
                             (case create_data_clock X figid A3 of
                                (Some e, A4) \<Rightarrow> (Some e, A4)
                              | (None, A4) \<Rightarrow>
                                  if filldata then
                                    (case get_figurepage A4 figid of
                                       Inl e \<Rightarrow> (Some e, A4)
                                     | Inr fp4 \<Rightarrow>
                                         (case fill_data X fp4 of
                                            Inl e \<Rightarrow> (Some e, A4)
                                          | Inr fp5 \<Rightarrow>
                                              (None,
                                               A4\<lparr>figurepages :=
                                                     (figurepages A4)(figid \<mapsto> fp5)\<rparr>)))
                                  else (None, A4))))
               | OptReturn r \<Rightarrow> blueprint_optreturn figid A1
               | Unsupported \<Rightarrow> (Some UnsupportedSource, A1)))"

section \<open>\<open>generate_model_panels\<close>: the order of the figures\<close>

text \<open>Lines 373 to 377: \<open>data_sort\<close>, from \<open>{False: 0}\<close> and the enumerated feed names.\<close>

definition data_sort :: "string list \<Rightarrow> (string option \<rightharpoonup> nat)" where
  "data_sort names =
     fold (\<lambda>(i, d) m. m(Some d \<mapsto> i)) (enumerate 1 names) [None \<mapsto> 0]"

text \<open>The key of line 379: a tuple of the plot order, the feed's entry in \<open>data_sort\<close>
  and the value of the figure kind; tuples are compared lexicographically.\<close>

definition fig_key ::
  "ext \<Rightarrow> store \<Rightarrow> (string option \<rightharpoonup> nat) \<Rightarrow> figure \<Rightarrow> int \<times> nat \<times> int" where
  "fig_key X st ds f =
     (get_plotorder X st f, the (ds (get_dataname X (master f))), type_value X (ftype f))"

text \<open>
  Lines 378 to 382. \<open>list.sort\<close> computes the key of every element first, so a feed
  name missing from \<open>data_sort\<close> raises \<open>KeyError\<close> before anything moves; it then sorts
  stably, which \<^const>\<open>sort_key\<close> (insertion from the right) does as well.
\<close>

definition sorted_figs :: "ext \<Rightarrow> int \<Rightarrow> app \<Rightarrow> error + figure list" where
  "sorted_figs X figid A =
     (case get_figurepage A figid of
        Inl e \<Rightarrow> Inl e
      | Inr fp \<Rightarrow>
          (case fp_strategy fp of
             None \<Rightarrow> Inl AttributeError
           | Some s \<Rightarrow>
               (let ds = data_sort (get_datanames s)
                in if list_all (\<lambda>f. ds (get_dataname X (master f)) \<noteq> None) (figures fp)
                   then Inr (sort_key (fig_key X (store A) ds) (figures fp))
                   else Inl KeyError)))"

section \<open>A sample setting\<close>

text \<open>
  Three objects for concrete evaluations: a data feed \<open>10\<close> labelled \<open>Close\<close>, an
  indicator \<open>11\<close> labelled \<open>SMA\<close>, and the strategy \<open>12\<close>. The indicator is a
  child of the feed for configuration and has a figure of its own for plotting. Category names stand for the
  classes of their objects, patterns are literal, and figure kinds are numbered in the
  order \<open>OBS\<close>, \<open>DATA\<close>, \<open>VOL\<close>, \<open>IND\<close>. The constructor gives the figure of a
  master the range object numbered as the master, and its volume figure the one 100
  above it; the renderer calls leave the figures and the page as they are.
\<close>

definition sample_type :: "oid \<Rightarrow> FigureType option" where
  "sample_type obj = (if obj = 10 then Some DATA else if obj = 11 then Some IND else None)"

definition sample_ext :: ext where
  "sample_ext =
     \<lparr>is_strategy = (\<lambda>obj. obj = 12),
      get_type = sample_type,
      get_obj = (\<lambda>name.
        if name = ''DATA'' then Some (\<lambda>obj. sample_type obj = Some DATA)
        else if name = ''IND'' then Some (\<lambda>obj. sample_type obj = Some IND)
        else if name = ''OBS'' then Some (\<lambda>obj. sample_type obj = Some OBS)
        else None),
      obj2label = (\<lambda>obj pinfo. if obj = 10 then ''Close'' else ''SMA''),
      re_compile = literal_compile,
      get_dataname = (\<lambda>obj. if obj = 12 then None else Some ''data0''),
      type_value = (\<lambda>t. case t of OBS \<Rightarrow> 0 | DATA \<Rightarrow> 1 | VOL \<Rightarrow> 2 | IND \<Rightarrow> 3),
      get_plotorder = (\<lambda>st f. case st (master f) ''plotorder'' of
                                 Some (VInt n) \<Rightarrow> n | _ \<Rightarrow> 0),
      fill_data = (\<lambda>fp. Inr (fp\<lparr>cds_columns := Some (concat (map snd (data_clock_objs fp)))\<rparr>)),
      figure_range = (\<lambda>fp m t. case t of VOL \<Rightarrow> 100 + m | _ \<Rightarrow> m),
      figure_plot = (\<lambda>f obj. f),
      figure_plot_volume = (\<lambda>f obj. f),
      figure_apply = (\<lambda>f. f),
      page_apply = (\<lambda>fp. fp)\<rparr>"

definition sample_strategy :: strategy where
  "sample_strategy =
     \<lparr>get_plotobjs = (\<lambda>include_non_plotable order_by_plotmaster st.
        if order_by_plotmaster then [(10, []), (11, [])] else [(12, []), (10, [11])]),
      strat_analyzers = [],
      get_datanames = [''data0''],
      get_smallest_dataname = (\<lambda>names. Some ''data0'')\<rparr>"

definition sample_app :: app where
  "sample_app =
     \<lparr>scheme_volume = True, scheme_voloverlay = False, plotconfig = None,
      figurepages = Map.empty, store = (\<lambda>obj. Map.empty)\<rparr>"





text \<open>
  A second setting, for the order of the figures: two declared feeds, \<open>data0\<close> and
  \<open>data1\<close>; the feed \<open>10\<close> on \<open>data0\<close> with plot order 5, the feed \<open>20\<close> on \<open>data1\<close>, and
  the indicators \<open>11\<close> and \<open>21\<close> on \<open>data0\<close>, the last three with plot order 0. The page
  holds the volume figure of \<open>10\<close>, the figure of \<open>20\<close>, the figure of \<open>21\<close>, the
  figure of \<open>10\<close> and the figure of \<open>11\<close>, in this order.
\<close>

definition order_ext :: ext where
  "order_ext =
     sample_ext\<lparr>get_dataname :=
       (\<lambda>obj. if obj = 20 then Some ''data1'' else Some ''data0'')\<rparr>"

definition order_strategy :: strategy where
  "order_strategy = sample_strategy\<lparr>get_datanames := [''data0'', ''data1'']\<rparr>"

definition order_store :: store where
  "order_store = (\<lambda>obj. if obj = 10 then [''plotorder'' \<mapsto> VInt 5]
                          else [''plotorder'' \<mapsto> VInt 0])"

definition order_vol10 :: figure where
  "order_vol10 = \<lparr>master = 10, childs = [], ftype = VOL, x_range = 110\<rparr>"

definition order_data20 :: figure where
  "order_data20 = \<lparr>master = 20, childs = [], ftype = DATA, x_range = 10\<rparr>"

definition order_ind21 :: figure where
  "order_ind21 = \<lparr>master = 21, childs = [], ftype = IND, x_range = 10\<rparr>"

definition order_data10 :: figure where
  "order_data10 = \<lparr>master = 10, childs = [], ftype = DATA, x_range = 10\<rparr>"

definition order_ind11 :: figure where
  "order_ind11 = \<lparr>master = 11, childs = [], ftype = IND, x_range = 10\<rparr>"

definition order_figs :: "figure list" where
  "order_figs = [order_vol10, order_data20, order_ind21, order_data10, order_ind11]"

definition order_app :: app where
  "order_app =
     sample_app\<lparr>figurepages :=
                  [0 \<mapsto> (FigurePage (Strategy order_strategy))\<lparr>figures := order_figs\<rparr>],
                store := order_store\<rparr>"

section \<open>Properties of the built-ins\<close>

lemma py_split_no_sep: "sep \<notin> set s \<Longrightarrow> py_split sep s = [s]"
  by (induction s) auto

lemma py_split_at_sep:
  "sep \<notin> set a \<Longrightarrow> py_split sep (a @ sep # b) = a # py_split sep b"
  by (induction a) auto

lemma py_split_two:
  "sep \<notin> set a \<Longrightarrow> sep \<notin> set b \<Longrightarrow> py_split sep (a @ sep # b) = [a, b]"
  by (simp add: py_split_at_sep py_split_no_sep)

lemma py_split_length: "length (py_split sep s) = Suc (count_list s sep)"
  by (induction s) (auto split: list.splits)

lemma digit_val_digit: "d < 10 \<Longrightarrow> digit_val (digit_chars ! d) = Some d"
proof -
  assume "d < 10"
  then have "d \<in> {0, 1, 2, 3, 4, 5, 6, 7, 8, 9}" by auto
  then show ?thesis
    by (auto simp: digit_val_def digit_chars_def)
qed

lemma digit_not_special:
  "digit_val c = Some v \<Longrightarrow> c \<noteq> CHR ''_'' \<and> c \<noteq> CHR ''-'' \<and> c \<noteq> CHR ''+'' \<and> \<not> is_space c"
  by (auto simp: digit_val_def digit_chars_def is_space_def split: if_splits)

lemma py_str_digits: "c \<in> set (py_str n) \<Longrightarrow> \<exists>v. digit_val c = Some v"
proof (induction n arbitrary: c rule: py_str.induct)
  case (1 n)
  show ?case
  proof (cases "n < 10")
    case True
    with "1.prems" have "c = digit_chars ! n" by (simp add: py_str.simps[of n])
    with True show ?thesis by (simp add: digit_val_digit)
  next
    case False
    with "1.prems" have "c \<in> set (py_str (n div 10)) \<or> c = digit_chars ! (n mod 10)"
      by (auto simp: py_str.simps[of n])
    then show ?thesis
    proof
      assume "c \<in> set (py_str (n div 10))"
      with "1.IH"[OF False] show ?thesis .
    next
      assume "c = digit_chars ! (n mod 10)"
      then show ?thesis by (simp add: digit_val_digit)
    qed
  qed
qed

lemma digits_acc_append_digit:
  "digit_val c = Some v \<Longrightarrow> digits_acc a xs = Some m \<Longrightarrow> \<forall>x \<in> set xs. x \<noteq> CHR ''_''
     \<Longrightarrow> digits_acc a (xs @ [c]) = Some (10 * m + v)"
proof (induction xs arbitrary: a)
  case Nil
  then show ?case by (auto dest: digit_not_special)
next
  case (Cons x xs)
  then show ?case by (auto split: option.splits)
qed

lemma digits_acc_py_str: "digits_acc 0 (py_str n) = Some n"
proof (induction n rule: py_str.induct)
  case (1 n)
  show ?case
  proof (cases "n < 10")
    case True
    then show ?thesis
      by (simp add: py_str.simps[of n] digit_val_digit) (auto dest: digit_not_special digit_val_digit)
  next
    case False
    have nu: "\<forall>x \<in> set (py_str (n div 10)). x \<noteq> CHR ''_''"
      using py_str_digits digit_not_special by blast
    have "digits_acc 0 (py_str (n div 10) @ [digit_chars ! (n mod 10)])
            = Some (10 * (n div 10) + n mod 10)"
      by (rule digits_acc_append_digit[OF digit_val_digit "1.IH"[OF False] nu]) simp
    with False show ?thesis by (simp add: py_str.simps[of n])
  qed
qed

lemma py_str_cons: "\<exists>c cs v. py_str n = c # cs \<and> digit_val c = Some v"
proof -
  have "py_str n \<noteq> []"
    by (induction n rule: py_str.induct) (simp add: py_str.simps)
  then obtain c cs where e: "py_str n = c # cs" by (cases "py_str n") auto
  with py_str_digits[of c n] show ?thesis by auto
qed

lemma py_nat_py_str:
  assumes "length (py_str n) \<le> int_max_str_digits"
  shows "py_nat (py_str n) = Some n"
proof -
  obtain c cs v where e: "py_str n = c # cs" and d: "digit_val c = Some v"
    using py_str_cons by blast
  from digits_acc_py_str[of n] e d have acc: "digits_acc v cs = Some n"
    using digit_not_special[OF d] by simp
  have "length (filter (\<lambda>d. digit_val d \<noteq> None) (py_str n)) \<le> length (py_str n)"
    by simp
  with assms have "\<not> int_max_str_digits < length (filter (\<lambda>d. digit_val d \<noteq> None) (c # cs))"
    unfolding e by linarith
  with acc d show ?thesis unfolding py_nat_def e by simp
qed

lemma py_strip_py_str: "py_strip (py_str n) = py_str n"
proof -
  have ns: "\<forall>c \<in> set (py_str n). \<not> is_space c"
    using py_str_digits digit_not_special by blast
  have dw: "\<And>xs. \<forall>c \<in> set xs. \<not> is_space c \<Longrightarrow> dropWhile is_space xs = xs"
    by (case_tac xs) auto
  from ns have "dropWhile is_space (rev (py_str n)) = rev (py_str n)"
    by (intro dw) simp
  with dw[OF ns] show ?thesis by (simp add: py_strip_def)
qed

lemma py_int_py_str:
  assumes "length (py_str n) \<le> int_max_str_digits"
  shows "py_int (py_str n) = Some (int n)"
proof -
  obtain c cs v where e: "py_str n = c # cs" and d: "digit_val c = Some v"
    using py_str_cons by blast
  from digit_not_special[OF d] have "c \<noteq> CHR ''-''" "c \<noteq> CHR ''+''" by simp_all
  then show ?thesis
    unfolding py_int_def py_strip_py_str using py_nat_py_str[OF assms] e by simp
qed

lemma py_int_3: "py_int ''3'' = Some 3"
  by (simp add: py_int_def py_strip_def is_space_def py_nat_def digit_val_def digit_chars_def
      int_max_str_digits_def)

text \<open>The whitespace \<open>int\<close> skips, the sign and the underscores, at small inputs.\<close>

lemma py_int_examples:
  "py_int [CHR 0x1F, CHR ''3''] = None"
  "py_int [CHR 0xA0, CHR ''3''] = Some 3"
  "py_int '' +1_0 '' = Some 10"
  "py_int ''-07'' = Some (- 7)"
  "py_int ''1__0'' = None"
  "py_int ''3_'' = None"
  "py_int ''- 3'' = None"
  "py_int [] = None"
  by (simp_all add: py_int_def py_strip_def is_space_def py_nat_def digit_val_def
      digit_chars_def int_max_str_digits_def)


section \<open>The sample setting, field by field\<close>

lemma sample_ext_sel:
  "is_strategy sample_ext = (\<lambda>obj. obj = 12)"
  "get_type sample_ext = sample_type"
  "obj2label sample_ext = (\<lambda>obj pinfo. if obj = 10 then ''Close'' else ''SMA'')"
  "re_compile sample_ext = literal_compile"
  "get_dataname sample_ext = (\<lambda>obj. if obj = 12 then None else Some ''data0'')"
  "type_value sample_ext = (\<lambda>t. case t of OBS \<Rightarrow> 0 | DATA \<Rightarrow> 1 | VOL \<Rightarrow> 2 | IND \<Rightarrow> 3)"
  by (simp_all add: sample_ext_def)

lemma sample_get_obj:
  "get_obj sample_ext ''DATA'' = Some (\<lambda>obj. sample_type obj = Some DATA)"
  "get_obj sample_ext ''IND'' = Some (\<lambda>obj. sample_type obj = Some IND)"
  by (simp_all add: sample_ext_def)

lemma sample_type_simps:
  "sample_type 10 = Some DATA" "sample_type 11 = Some IND" "sample_type 12 = None"
  by (simp_all add: sample_type_def)

lemma literal_compile_plain:
  "literal_compile ''SM'' = Some (literal ''SM'')"
  "literal_compile ''MA'' = Some (literal ''MA'')"
  by (simp_all add: literal_compile_def is_meta_def)

section \<open>Rule application\<close>

lemma config_loop_append:
  "config_loop X obj idx (pre @ rest) pinfo =
     (case config_loop X obj idx pre pinfo of
        (Some e, p) \<Rightarrow> (Some e, p)
      | (None, p) \<Rightarrow> config_loop X obj idx rest p)"
proof (induction pre arbitrary: pinfo)
  case Nil
  then show ?case by simp
next
  case (Cons a pre)
  obtain k c where a: "a = (k, c)" by (cases a)
  show ?case unfolding a using Cons.IH by (simp split: sum.splits)
qed

lemma config_loop_after:
  assumes "config_loop X obj idx pre p0 = (None, p)"
  shows "config_loop X obj idx (pre @ (k, config) # post) p0 =
           (case rule_applies X obj p idx k of
              Inl e \<Rightarrow> (Some e, p)
            | Inr b \<Rightarrow> config_loop X obj idx post (if b then apply_config p config else p))"
  using assms by (simp add: config_loop_append)

lemma length_ge3: "3 \<le> length xs \<Longrightarrow> \<exists>x y z zs. xs = x # y # z # zs"
proof (cases xs)
  case Nil
  assume "3 \<le> length xs"
  with Nil show ?thesis by simp
next
  case c1: (Cons x t1)
  assume l: "3 \<le> length xs"
  show ?thesis
  proof (cases t1)
    case Nil
    with c1 l show ?thesis by simp
  next
    case c2: (Cons y t2)
    show ?thesis
    proof (cases t2)
      case Nil
      with c1 c2 l show ?thesis by simp
    next
      case (Cons z zs)
      with c1 c2 show ?thesis by simp
    qed
  qed
qed

lemma sample_label: "obj2label sample_ext 11 p = ''SMA''"
  by (simp add: sample_ext_sel)

lemma sample_search: "re_search (literal ''MA'') ''SMA''"
  by (simp add: re_search_def literal_def upt_rec)

lemma sample_no_match: "rule_applies sample_ext 11 Map.empty 0 ''r:MA'' = Inr False"
  by (simp add: rule_applies_def sample_ext_sel literal_compile_plain re_match_def literal_def)

text \<open>
  Claim C1 holds that a \<open>byLabelRegex\<close> rule is applied exactly when its pattern
  matches anywhere in the label. The source calls \<open>re.match\<close>, which anchors the match
  at the first character: the pattern \<open>MA\<close> occurs in the label \<open>SMA\<close>, and the rule
  \<open>r:MA\<close> leaves the object as it was.
\<close>

theorem regex_rule_search_counterexample:
  "re_compile sample_ext ''MA'' = Some (literal ''MA'')
   \<and> re_search (literal ''MA'') (obj2label sample_ext 11 Map.empty)
   \<and> rule_applies sample_ext 11 Map.empty 0 ''r:MA'' = Inr False
   \<and> config_loop sample_ext 11 0 [(''r:MA'', [(''color'', VStr ''red'')])] Map.empty
       = (None, Map.empty)"
  using sample_search sample_no_match
  by (simp add: sample_ext_sel literal_compile_plain)

text \<open>
  Claim C1, amended: take a rule key \<open>r:target\<close> whose target holds no colon and whose
  pattern compiles, anywhere in a configuration whose earlier rules have run without
  raising. The overrides are applied if and only if the compiled pattern matches the
  object's label with the match starting at position 0, as \<open>re.match\<close> decides it, and
  the loop goes on with the later rules either way. A match at position 0 is a match
  under search semantics; the converse fails. A key \<open>r:a:b\<close>, whose target holds a
  colon, splits into more than two parts: the rule raises \<open>ValueError\<close> and applies
  nothing, whatever the pattern.
\<close>

theorem regex_rule_applies_iff_match_at_start:
  assumes "CHR '':'' \<notin> set target" and "re_compile X target = Some pat"
    and "config_loop X obj idx pre p0 = (None, p)"
  shows "rule_applies X obj p idx (''r:'' @ target) = Inr (pat (obj2label X obj p) 0)
       \<and> config_loop X obj idx (pre @ (''r:'' @ target, config) # post) p0
           = config_loop X obj idx post
               (if pat (obj2label X obj p) 0 then apply_config p config else p)
       \<and> (pat (obj2label X obj p) 0 \<longrightarrow> re_search pat (obj2label X obj p))
       \<and> rule_applies X obj p idx (''r:'' @ a @ '':'' @ b) = Inl ValueError
       \<and> config_loop X obj idx (pre @ (''r:'' @ a @ '':'' @ b, config) # post) p0
           = (Some ValueError, p)"
proof -
  have sp: "py_split CHR '':'' (''r:'' @ target) = [''r'', target]"
    using py_split_two[of "CHR '':''" "''r''" target] assms(1) by simp
  have ra: "rule_applies X obj p idx (''r:'' @ target) = Inr (pat (obj2label X obj p) 0)"
    unfolding rule_applies_def sp using assms(2) by (simp add: re_match_def)
  have loop: "config_loop X obj idx (pre @ (''r:'' @ target, config) # post) p0
           = config_loop X obj idx post
               (if pat (obj2label X obj p) 0 then apply_config p config else p)"
    unfolding config_loop_after[OF assms(3)] ra by simp
  have srch: "pat (obj2label X obj p) 0 \<longrightarrow> re_search pat (obj2label X obj p)"
    unfolding re_search_def list_ex_iff by (intro impI bexI[of _ 0]) simp_all
  have "3 \<le> length (py_split CHR '':'' (''r:'' @ a @ '':'' @ b))"
    unfolding py_split_length by simp
  then obtain x y z zs where "py_split CHR '':'' (''r:'' @ a @ '':'' @ b) = x # y # z # zs"
    using length_ge3 by blast
  then have bad: "rule_applies X obj p idx (''r:'' @ a @ '':'' @ b) = Inl ValueError"
    unfolding rule_applies_def by simp
  have badloop: "config_loop X obj idx (pre @ (''r:'' @ a @ '':'' @ b, config) # post) p0
           = (Some ValueError, p)"
    unfolding config_loop_after[OF assms(3)] bad by simp
  from ra loop srch bad badloop show ?thesis by (intro conjI)
qed

theorem regex_rule_applies_iff_match_at_start_witness:
  "config_loop sample_ext 11 0 [(''r:Cl'', [(''color'', VStr ''blue'')])] Map.empty
     = (None, Map.empty)
   \<and> literal ''SM'' ''SMA'' 0
   \<and> re_search (literal ''SM'') ''SMA''
   \<and> config_loop sample_ext 11 0
       [(''r:Cl'', [(''color'', VStr ''blue'')]),
        (''r:SM'', [(''color'', VStr ''red'')]),
        (''r:MA'', [(''width'', VInt 2)])] Map.empty
       = (None, [''color'' \<mapsto> VStr ''red''])"
proof -
  have h1: "CHR '':'' \<notin> set ''SM''" by simp
  have h2: "re_compile sample_ext ''SM'' = Some (literal ''SM'')"
    by (simp add: sample_ext_sel literal_compile_plain)
  have h3: "config_loop sample_ext 11 0 [(''r:Cl'', [(''color'', VStr ''blue'')])] Map.empty
              = (None, Map.empty)"
    by (simp add: rule_applies_def sample_ext_sel literal_compile_def is_meta_def
        re_match_def literal_def)
  have m: "literal ''SM'' ''SMA'' 0" by (simp add: literal_def)
  have post: "config_loop sample_ext 11 0 [(''r:MA'', [(''width'', VInt 2)])]
                [''color'' \<mapsto> VStr ''red''] = (None, [''color'' \<mapsto> VStr ''red''])"
    by (simp add: rule_applies_def sample_ext_sel literal_compile_plain re_match_def
        literal_def)
  note T = regex_rule_applies_iff_match_at_start[OF h1 h2 h3, of "[(''color'', VStr ''red'')]"
      "[(''r:MA'', [(''width'', VInt 2)])]", unfolded sample_label]
  from T have "literal ''SM'' ''SMA'' 0 \<longrightarrow> re_search (literal ''SM'') ''SMA''"
    by (rule conjunct1[OF conjunct2[OF conjunct2]])
  then have s: "re_search (literal ''SM'') ''SMA''" using m by (rule mp)
  from T have "config_loop sample_ext 11 0
       ([(''r:Cl'', [(''color'', VStr ''blue'')])]
        @ (''r:'' @ ''SM'', [(''color'', VStr ''red'')]) # [(''r:MA'', [(''width'', VInt 2)])])
       Map.empty
       = config_loop sample_ext 11 0 [(''r:MA'', [(''width'', VInt 2)])]
           (if literal ''SM'' ''SMA'' 0 then apply_config Map.empty [(''color'', VStr ''red'')]
            else Map.empty)"
    by (rule conjunct1[OF conjunct2])
  with m post have "config_loop sample_ext 11 0
       [(''r:Cl'', [(''color'', VStr ''blue'')]),
        (''r:SM'', [(''color'', VStr ''red'')]),
        (''r:MA'', [(''width'', VInt 2)])] Map.empty
       = (None, [''color'' \<mapsto> VStr ''red''])"
    by simp
  with h3 m s show ?thesis by (intro conjI)
qed

text \<open>
  Claim C4: take a rule key \<open>#tag:TYPE-ORDINAL\<close> anywhere in a configuration whose
  earlier rules have run without raising. The overrides are applied if and only if the
  object is an instance of the class the category name stands for and \<open>int\<close> of the
  target ordinal is the object's ordinal; in particular, for a target ordinal written
  as the decimal numeral of \<open>n\<close>, if and only if the class test passes and the object's
  ordinal is \<open>n\<close>. In every other case nothing is applied by this rule: the loop goes
  on with the later rules when the class test fails or the ordinals differ, and stops
  with an exception, the object as the earlier rules left it, when the category name
  is unknown or the ordinal of a rule that passed the class test is no integer.
\<close>

theorem index_rule_applies_iff_type_and_ordinal:
  assumes "CHR '':'' \<notin> set tag" and "CHR '':'' \<notin> set ttype" and "CHR '':'' \<notin> set tidx"
    and "CHR ''-'' \<notin> set ttype" and "CHR ''-'' \<notin> set tidx"
    and "config_loop X obj idx pre p0 = (None, p)"
  shows "(rule_applies X obj p idx (''#'' @ tag @ '':'' @ ttype @ ''-'' @ tidx) = Inr True
            \<longleftrightarrow> (\<exists>cls. get_obj X ttype = Some cls \<and> cls obj \<and> py_int tidx = Some (int idx)))
       \<and> (\<forall>n. tidx = py_str n \<and> length tidx \<le> int_max_str_digits \<longrightarrow>
            (rule_applies X obj p idx (''#'' @ tag @ '':'' @ ttype @ ''-'' @ tidx) = Inr True
               \<longleftrightarrow> (\<exists>cls. get_obj X ttype = Some cls \<and> cls obj) \<and> n = idx))
       \<and> config_loop X obj idx
            (pre @ (''#'' @ tag @ '':'' @ ttype @ ''-'' @ tidx, config) # post) p0
           = (case get_obj X ttype of
                None \<Rightarrow> (Some KeyError, p)
              | Some cls \<Rightarrow>
                  if \<not> cls obj then config_loop X obj idx post p
                  else (case py_int tidx of
                          None \<Rightarrow> (Some ValueError, p)
                        | Some n \<Rightarrow>
                            config_loop X obj idx post
                              (if n = int idx then apply_config p config else p)))"
proof -
  define k where "k = ''#'' @ tag @ '':'' @ ttype @ ''-'' @ tidx"
  have "CHR '':'' \<notin> set (''#'' @ tag)" and "CHR '':'' \<notin> set (ttype @ ''-'' @ tidx)"
    using assms by simp_all
  from py_split_two[OF this]
  have sp: "py_split CHR '':'' k = [CHR ''#'' # tag, ttype @ ''-'' @ tidx]"
    by (simp add: k_def)
  have sp2: "py_split CHR ''-'' (ttype @ ''-'' @ tidx) = [ttype, tidx]"
    using py_split_two[OF assms(4,5)] by simp
  have ra: "rule_applies X obj p idx k =
      (case get_obj X ttype of
         None \<Rightarrow> Inl KeyError
       | Some cls \<Rightarrow>
           if \<not> cls obj then Inr False
           else (case py_int tidx of
                   None \<Rightarrow> Inl ValueError
                 | Some n \<Rightarrow> Inr (n = int idx)))"
    unfolding rule_applies_def sp list.case sp2 by (simp split: option.splits)
  have iff: "rule_applies X obj p idx k = Inr True
      \<longleftrightarrow> (\<exists>cls. get_obj X ttype = Some cls \<and> cls obj \<and> py_int tidx = Some (int idx))"
    unfolding ra by (simp split: option.splits)
  have num: "\<forall>n. tidx = py_str n \<and> length tidx \<le> int_max_str_digits \<longrightarrow>
            (rule_applies X obj p idx k = Inr True
               \<longleftrightarrow> (\<exists>cls. get_obj X ttype = Some cls \<and> cls obj) \<and> n = idx)"
    unfolding iff using py_int_py_str by auto
  have loop: "config_loop X obj idx (pre @ (k, config) # post) p0
           = (case get_obj X ttype of
                None \<Rightarrow> (Some KeyError, p)
              | Some cls \<Rightarrow>
                  if \<not> cls obj then config_loop X obj idx post p
                  else (case py_int tidx of
                          None \<Rightarrow> (Some ValueError, p)
                        | Some n \<Rightarrow>
                            config_loop X obj idx post
                              (if n = int idx then apply_config p config else p)))"
    unfolding config_loop_after[OF assms(6)] ra by (simp split: option.splits)
  from iff num loop show ?thesis unfolding k_def by (intro conjI)
qed

theorem index_rule_applies_iff_type_and_ordinal_witness:
  "config_loop sample_ext 11 3 [(''#:DATA-3'', [(''color'', VStr ''blue'')])] Map.empty
     = (None, Map.empty)
   \<and> py_str 3 = ''3''
   \<and> rule_applies sample_ext 11 Map.empty 3 ''#:IND-3'' = Inr True
   \<and> config_loop sample_ext 11 3
       [(''#:DATA-3'', [(''color'', VStr ''blue'')]),
        (''#:IND-3'', [(''color'', VStr ''red'')]),
        (''#x:IND-4'', [(''width'', VInt 2)])] Map.empty
       = (None, [''color'' \<mapsto> VStr ''red''])"
proof -
  have h: "CHR '':'' \<notin> set []" "CHR '':'' \<notin> set ''IND''" "CHR '':'' \<notin> set ''3''"
    "CHR ''-'' \<notin> set ''IND''" "CHR ''-'' \<notin> set ''3''"
    by simp_all
  have h6: "config_loop sample_ext 11 3 [(''#:DATA-3'', [(''color'', VStr ''blue'')])] Map.empty
     = (None, Map.empty)"
    by (simp add: rule_applies_def sample_get_obj sample_type_simps)
  have s3: "py_str 3 = ''3''" by (simp add: py_str.simps digit_chars_def)
  have len: "length ''3'' \<le> int_max_str_digits" by (simp add: int_max_str_digits_def)
  have post: "config_loop sample_ext 11 3 [(''#x:IND-4'', [(''width'', VInt 2)])]
                [''color'' \<mapsto> VStr ''red''] = (None, [''color'' \<mapsto> VStr ''red''])"
    by (simp add: rule_applies_def sample_get_obj sample_type_simps py_int_def py_strip_def
        is_space_def py_nat_def digit_val_def digit_chars_def int_max_str_digits_def)
  note T = index_rule_applies_iff_type_and_ordinal[OF h h6, of "[(''color'', VStr ''red'')]"
      "[(''#x:IND-4'', [(''width'', VInt 2)])]", unfolded append.simps]
  have cls: "\<exists>cls. get_obj sample_ext ''IND'' = Some cls \<and> cls 11"
    by (simp add: sample_get_obj sample_type_simps)
  from T have "\<forall>n. ''3'' = py_str n \<and> length ''3'' \<le> int_max_str_digits \<longrightarrow>
            (rule_applies sample_ext 11 Map.empty 3 ''#:IND-3'' = Inr True
               \<longleftrightarrow> (\<exists>cls. get_obj sample_ext ''IND'' = Some cls \<and> cls 11) \<and> n = 3)"
    by (rule conjunct1[OF conjunct2])
  from this[THEN spec, of 3] s3 len cls
  have ap: "rule_applies sample_ext 11 Map.empty 3 ''#:IND-3'' = Inr True"
    by simp
  from T have "config_loop sample_ext 11 3
       [(''#:DATA-3'', [(''color'', VStr ''blue'')]),
        (''#:IND-3'', [(''color'', VStr ''red'')]),
        (''#x:IND-4'', [(''width'', VInt 2)])] Map.empty
       = (case get_obj sample_ext ''IND'' of
                None \<Rightarrow> (Some KeyError, Map.empty)
              | Some cls \<Rightarrow>
                  if \<not> cls 11 then config_loop sample_ext 11 3 [(''#x:IND-4'', [(''width'', VInt 2)])] Map.empty
                  else (case py_int ''3'' of
                          None \<Rightarrow> (Some ValueError, Map.empty)
                        | Some n \<Rightarrow>
                            config_loop sample_ext 11 3 [(''#x:IND-4'', [(''width'', VInt 2)])]
                              (if n = int 3 then apply_config Map.empty [(''color'', VStr ''red'')]
                               else Map.empty)))"
    by (rule conjunct2[OF conjunct2])
  then have "config_loop sample_ext 11 3
       [(''#:DATA-3'', [(''color'', VStr ''blue'')]),
        (''#:IND-3'', [(''color'', VStr ''red'')]),
        (''#x:IND-4'', [(''width'', VInt 2)])] Map.empty
       = (None, [''color'' \<mapsto> VStr ''red''])"
    using post by (simp add: sample_get_obj sample_type_simps py_int_3)
  with h6 s3 ap show ?thesis by (intro conjI)
qed

lemma unknown_rule_raises:
  assumes "\<not> known_kind k"
  shows "\<exists>e. rule_applies X obj pinfo idx k = Inl e"
proof (cases "py_split CHR '':'' k")
  case Nil
  then show ?thesis by (simp add: rule_applies_def)
next
  case one: (Cons ctype r1)
  show ?thesis
  proof (cases r1)
    case Nil
    with one show ?thesis by (simp add: rule_applies_def)
  next
    case two: (Cons target r2)
    show ?thesis
    proof (cases r2)
      case Nil
      with one two assms
      have "ctype \<noteq> ''r''" and "ctype = [] \<or> hd ctype \<noteq> CHR ''#''" and "ctype \<noteq> ''id''"
        by (auto simp: known_kind_def)
      with one two Nil show ?thesis by (auto simp: rule_applies_def)
    next
      case (Cons x r3)
      with one two show ?thesis by (simp add: rule_applies_def)
    qed
  qed
qed

section \<open>Figure pages and their identifiers\<close>

lemma sample_first_page:
  "figurepages (snd (create_figurepage sample_ext (OptReturn [13]) 0 (\<lambda>obj. False) True sample_app)) 0
     = Some ((FigurePage (OptReturn [13]))\<lparr>analyzers := [13]\<rparr>)"
  by (simp add: create_figurepage_def sample_app_def blueprint_optreturn_def get_figurepage_def
      fp_optreturn_def FigurePage_def reset_def)

text \<open>
  Claim C3: \<open>create_figurepage\<close> with a \<open>figid\<close> that is already bound raises, and the
  application is exactly as before the call: the page bound under \<open>figid\<close> and the
  whole dictionary of pages are unchanged.
\<close>

theorem create_figurepage_bound_id_fails:
  assumes "figurepages A figid = Some fp0"
  shows "create_figurepage X obj figid flt filldata A = (Some (FigurePageExists figid), A)"
  using assms by (simp add: create_figurepage_def dom_def)

theorem create_figurepage_bound_id_fails_witness:
  "create_figurepage sample_ext (OptReturn [14]) 0 (\<lambda>obj. False) True
     (snd (create_figurepage sample_ext (OptReturn [13]) 0 (\<lambda>obj. False) True sample_app))
   = (Some (FigurePageExists 0),
      snd (create_figurepage sample_ext (OptReturn [13]) 0 (\<lambda>obj. False) True sample_app))"
  by (rule create_figurepage_bound_id_fails[OF sample_first_page])

text \<open>
  Claim C10: \<open>create_figurepage\<close> with an object that is neither a strategy nor an
  optimisation result raises the unsupported-source error after the fresh page has
  been stored under the new \<open>figid\<close>; the failed call leaves that page bound.
\<close>

theorem create_figurepage_unsupported_keeps_binding:
  assumes "figid \<notin> dom (figurepages A)"
  shows "create_figurepage X Unsupported figid flt filldata A
           = (Some UnsupportedSource,
              A\<lparr>figurepages := (figurepages A)(figid \<mapsto> FigurePage Unsupported)\<rparr>)"
  using assms by (simp add: create_figurepage_def)

theorem create_figurepage_unsupported_keeps_binding_witness:
  "0 \<notin> dom (figurepages sample_app)
   \<and> fst (create_figurepage sample_ext Unsupported 0 (\<lambda>obj. False) True sample_app)
       = Some UnsupportedSource
   \<and> figurepages (snd (create_figurepage sample_ext Unsupported 0 (\<lambda>obj. False) True sample_app)) 0
       = Some (FigurePage Unsupported)"
proof -
  have h: "0 \<notin> dom (figurepages sample_app)" by (simp add: sample_app_def)
  from create_figurepage_unsupported_keeps_binding[OF h, of sample_ext "\<lambda>obj. False" True] h
  show ?thesis by simp
qed

section \<open>The visibility filter\<close>

lemma dict_set_fresh: "k \<notin> fst ` set d \<Longrightarrow> dict_set k v d = d @ [(k, v)]"
  by (induction d) auto

lemma get_plotobjects_loop_eq:
  assumes "distinct (map fst (acc @ objs))"
  shows "get_plotobjects_loop flt objs acc tested =
           (acc @ map (\<lambda>(m, cs). (m, filter (\<lambda>c. \<not> flt c) cs))
                    (filter (\<lambda>(m, cs). \<not> flt m) objs),
            tested @ concat (map (\<lambda>(m, cs). if flt m then [m] else m # cs) objs))"
  using assms
proof (induction objs arbitrary: acc tested)
  case Nil
  then show ?case by simp
next
  case (Cons a objs)
  obtain m cs where a: "a = (m, cs)" by (cases a)
  show ?case
  proof (cases "flt m")
    case True
    have "distinct (map fst (acc @ objs))" using Cons.prems by (simp add: a)
    from Cons.IH[OF this] True show ?thesis by (simp add: a)
  next
    case False
    let ?acc = "acc @ [(m, filter (\<lambda>c. \<not> flt c) cs)]"
    have fresh: "m \<notin> fst ` set acc" using Cons.prems by (auto simp: a)
    have "distinct (map fst (?acc @ objs))" using Cons.prems by (auto simp: a)
    from Cons.IH[OF this] False show ?thesis
      by (simp add: a dict_set_fresh[OF fresh])
  qed
qed

lemma filter_objs_eq:
  assumes "distinct (map fst objs)"
  shows "filter_objs flt objs =
           (map (\<lambda>(m, cs). (m, filter (\<lambda>c. \<not> flt c) cs)) (filter (\<lambda>(m, cs). \<not> flt m) objs),
            concat (map (\<lambda>(m, cs). if flt m then [m] else m # cs) objs))"
  unfolding filter_objs_def using get_plotobjects_loop_eq[of "[]" objs flt "[]"] assms by simp

lemma kept_masters:
  "map fst (map (\<lambda>(m, cs). (m, f cs)) (filter (\<lambda>(m, cs). \<not> flt m) objs))
     = filter (\<lambda>m. \<not> flt m) (map fst objs)"
  by (induction objs) auto

lemma distinct_concat_unique:
  "distinct (concat xss) \<Longrightarrow> xs \<in> set xss \<Longrightarrow> ys \<in> set xss \<Longrightarrow> c \<in> set xs
     \<Longrightarrow> c \<in> set ys \<Longrightarrow> xs = ys"
  by (induction xss) auto

text \<open>
  Claim C2: for a dictionary master to children (distinct masters) and a filter test,
  the filtered dictionary holds, in the order of the input, exactly the masters on
  which the test is false, each with those of its children on which the test is false,
  in their order. A master on which the test is true has no entry, and the test is not
  called on its children: the sequence of tested objects is each master, followed by
  its children only when the master is kept. When no object occurs twice in the
  dictionary, no child of a dropped master occurs anywhere in the result.
\<close>

theorem filter_objs_cascade:
  assumes "distinct (map fst objs)"
  shows "fst (filter_objs flt objs)
           = map (\<lambda>(m, cs). (m, filter (\<lambda>c. \<not> flt c) cs)) (filter (\<lambda>(m, cs). \<not> flt m) objs)
       \<and> snd (filter_objs flt objs)
           = concat (map (\<lambda>(m, cs). if flt m then [m] else m # cs) objs)
       \<and> (\<forall>(m, cs) \<in> set objs.
            if flt m then m \<notin> fst ` set (fst (filter_objs flt objs))
            else map_of (fst (filter_objs flt objs)) m = Some (filter (\<lambda>c. \<not> flt c) cs))
       \<and> map fst (fst (filter_objs flt objs)) = filter (\<lambda>m. \<not> flt m) (map fst objs)
       \<and> (distinct (concat (map (\<lambda>(m, cs). m # cs) objs)) \<longrightarrow>
            (\<forall>(m, cs) \<in> set objs. flt m \<longrightarrow>
               (\<forall>c \<in> set cs.
                  c \<notin> set (concat (map (\<lambda>(m, cs). m # cs) (fst (filter_objs flt objs)))))))"
proof -
  let ?out = "map (\<lambda>(m, cs). (m, filter (\<lambda>c. \<not> flt c) cs)) (filter (\<lambda>(m, cs). \<not> flt m) objs)"
  have out: "fst (filter_objs flt objs) = ?out"
    and tested: "snd (filter_objs flt objs)
                   = concat (map (\<lambda>(m, cs). if flt m then [m] else m # cs) objs)"
    by (simp_all add: filter_objs_eq[OF assms])
  have keys: "map fst ?out = filter (\<lambda>m. \<not> flt m) (map fst objs)"
    by (rule kept_masters)
  have dk: "distinct (map fst ?out)"
    unfolding keys using assms by simp
  have per_master: "\<forall>(m, cs) \<in> set objs.
      if flt m then m \<notin> fst ` set ?out
      else map_of ?out m = Some (filter (\<lambda>c. \<not> flt c) cs)"
  proof (clarify)
    fix m cs assume mem: "(m, cs) \<in> set objs"
    show "if flt m then m \<notin> fst ` set ?out
          else map_of ?out m = Some (filter (\<lambda>c. \<not> flt c) cs)"
    proof (cases "flt m")
      case True
      have "m \<notin> set (map fst ?out)" unfolding keys using True by simp
      then have "m \<notin> fst ` set ?out" by (simp only: set_map simp_thms)
      then show ?thesis using True by (simp only: if_True simp_thms)
    next
      case False
      with mem have "(m, filter (\<lambda>c. \<not> flt c) cs) \<in> set ?out" by force
      from map_of_is_SomeI[OF dk this] False show ?thesis by simp
    qed
  qed
  have gone: "distinct (concat (map (\<lambda>(m, cs). m # cs) objs)) \<longrightarrow>
            (\<forall>(m, cs) \<in> set objs. flt m \<longrightarrow>
               (\<forall>c \<in> set cs. c \<notin> set (concat (map (\<lambda>(m, cs). m # cs) ?out))))"
  proof (intro impI, clarify)
    fix m cs c
    assume d: "distinct (concat (map (\<lambda>(m, cs). m # cs) objs))"
      and mem: "(m, cs) \<in> set objs" and f: "flt m" and c: "c \<in> set cs"
      and bad: "c \<in> set (concat (map (\<lambda>(m, cs). m # cs) ?out))"
    from bad obtain m' cs' where mem': "(m', cs') \<in> set objs" and nf: "\<not> flt m'"
      and c': "c \<in> set (m' # filter (\<lambda>c. \<not> flt c) cs')"
      by auto
    from c' have c'': "c \<in> set (m' # cs')" by auto
    have a: "m # cs \<in> set (map (\<lambda>(m, cs). m # cs) objs)" using mem by force
    have b: "m' # cs' \<in> set (map (\<lambda>(m, cs). m # cs) objs)" using mem' by force
    have "c \<in> set (m # cs)" using c by simp
    from distinct_concat_unique[OF d a b this c''] have "m = m'" by simp
    with f nf show False by simp
  qed
  show ?thesis
    unfolding out tested by (intro conjI refl keys per_master gone)
qed

theorem filter_objs_cascade_witness:
  "distinct (map fst [(20, [21, 22]), (30, [31, 32 :: nat])] :: nat list)
   \<and> fst (filter_objs (\<lambda>obj. obj = 20 \<or> obj = 31) [(20, [21, 22]), (30, [31, 32])])
       = [(30, [32])]
   \<and> snd (filter_objs (\<lambda>obj. obj = 20 \<or> obj = 31) [(20, [21, 22]), (30, [31, 32])])
       = [20, 30, 31, 32]"
proof -
  have h: "distinct (map fst [(20, [21, 22]), (30, [31, 32 :: nat])] :: nat list)" by simp
  note T = filter_objs_cascade[OF h, of "\<lambda>obj. obj = 20 \<or> obj = 31"]
  from T have a: "fst (filter_objs (\<lambda>obj. obj = 20 \<or> obj = 31) [(20, [21, 22]), (30, [31, 32])])
       = map (\<lambda>(m, cs). (m, filter (\<lambda>c. \<not> (c = 20 \<or> c = 31)) cs))
           (filter (\<lambda>(m, cs). \<not> (m = 20 \<or> m = 31)) [(20, [21, 22]), (30, [31, 32])])"
    by (rule conjunct1)
  from T have b: "snd (filter_objs (\<lambda>obj. obj = 20 \<or> obj = 31) [(20, [21, 22]), (30, [31, 32])])
       = concat (map (\<lambda>(m, cs). if m = 20 \<or> m = 31 then [m] else m # cs)
           [(20, [21, 22]), (30, [31, 32])])"
    by (rule conjunct2[THEN conjunct1])
  from a have a1: "fst (filter_objs (\<lambda>obj. obj = 20 \<or> obj = 31) [(20, [21, 22]), (30, [31, 32])])
       = [(30, [32])]" by simp
  from b have b1: "snd (filter_objs (\<lambda>obj. obj = 20 \<or> obj = 31) [(20, [21, 22]), (30, [31, 32])])
       = [20, 30, 31, 32]" by simp
  from h a1 b1 show ?thesis by (intro conjI)
qed

section \<open>The default-identity pass\<close>

lemma configure_seq_append:
  "configure_seq X pc (xs @ ys) st =
     (case configure_seq X pc xs st of
        (Some e, st') \<Rightarrow> (Some e, st')
      | (None, st') \<Rightarrow> configure_seq X pc ys st')"
proof (induction xs arbitrary: st)
  case Nil
  then show ?case by simp
next
  case (Cons a xs)
  obtain i obj where a: "a = (i, obj)" by (cases a)
  obtain r p where cp: "configure_plotobject X pc obj i (st obj) = (r, p)"
    by (cases "configure_plotobject X pc obj i (st obj)")
  show ?case unfolding a using Cons.IH cp by (cases r) (simp_all add: fun_upd_def)
qed

lemma configure_childs_seq:
  "drop_counter (configure_childs X pc ss i st) = configure_seq X pc (enumerate i ss) st
   \<and> (fst (configure_childs X pc ss i st) = None
        \<longrightarrow> fst (snd (configure_childs X pc ss i st)) = i + length ss)"
proof (induction ss arbitrary: i st)
  case Nil
  then show ?case by (simp add: drop_counter_def)
next
  case (Cons s ss)
  obtain r p where cp: "configure_plotobject X pc s i (st s) = (r, p)"
    by (cases "configure_plotobject X pc s i (st s)")
  show ?case
  proof (cases r)
    case None
    with cp Cons.IH[of "Suc i" "st(s := p)"] show ?thesis by (simp add: fun_upd_def)
  next
    case (Some e)
    with cp show ?thesis by (simp add: drop_counter_def)
  qed
qed

lemma configure_objs_seq:
  "drop_counter (configure_objs X pc objs i st)
     = configure_seq X pc (enumerate i (traversal X objs)) st
   \<and> (fst (configure_objs X pc objs i st) = None
        \<longrightarrow> fst (snd (configure_objs X pc objs i st)) = i + length (traversal X objs))"
proof (induction objs arbitrary: i st)
  case Nil
  then show ?case by (simp add: drop_counter_def traversal_def)
next
  case (Cons a objs)
  obtain d ss where a: "a = (d, ss)" by (cases a)
  have tr: "traversal X ((d, ss) # objs)
              = (if is_strategy X d then [] else [d]) @ ss @ traversal X objs"
    by (simp add: traversal_def)
  show ?case
  proof (cases "is_strategy X d")
    case True
    obtain r j st1 where cc: "configure_childs X pc ss i st = (r, j, st1)"
      by (cases "configure_childs X pc ss i st")
    note cs = configure_childs_seq[of X pc ss i st, unfolded cc]
    show ?thesis
    proof (cases r)
      case None
      with cs have j: "j = i + length ss" and sq: "configure_seq X pc (enumerate i ss) st = (None, st1)"
        by (simp_all add: drop_counter_def)
      from Cons.IH[of j st1] True None cc j sq show ?thesis
        by (simp add: a tr enumerate_append_eq configure_seq_append)
    next
      case (Some e)
      with cs have sq: "configure_seq X pc (enumerate i ss) st = (Some e, st1)"
        by (simp add: drop_counter_def)
      with True Some cc show ?thesis
        by (simp add: a tr enumerate_append_eq configure_seq_append drop_counter_def)
    qed
  next
    case False
    obtain r0 p where cp: "configure_plotobject X pc d i (st d) = (r0, p)"
      by (cases "configure_plotobject X pc d i (st d)")
    show ?thesis
    proof (cases r0)
      case (Some e)
      with False cp show ?thesis by (simp add: a tr drop_counter_def)
    next
      case None
      obtain r j st1 where cc: "configure_childs X pc ss (Suc i) (st(d := p)) = (r, j, st1)"
        by (cases "configure_childs X pc ss (Suc i) (st(d := p))")
      note cs = configure_childs_seq[of X pc ss "Suc i" "st(d := p)", unfolded cc]
      show ?thesis
      proof (cases r)
        case rn: None
        with cs have j: "j = Suc i + length ss"
          and sq: "configure_seq X pc (enumerate (Suc i) ss) (st(d := p)) = (None, st1)"
          by (simp_all add: drop_counter_def)
        from Cons.IH[of j st1] False None cp rn cc j sq show ?thesis
          by (simp add: a tr enumerate_append_eq configure_seq_append)
      next
        case (Some e)
        with cs have sq: "configure_seq X pc (enumerate (Suc i) ss) (st(d := p)) = (Some e, st1)"
          by (simp add: drop_counter_def)
        with False None cp Some cc show ?thesis
          by (simp add: a tr enumerate_append_eq configure_seq_append drop_counter_def)
      qed
    qed
  qed
qed

lemma configure_seq_frame:
  "obj \<notin> snd ` set xs \<Longrightarrow> snd (configure_seq X pc xs st) obj = st obj"
proof (induction xs arbitrary: st)
  case Nil
  then show ?case by simp
next
  case (Cons a xs)
  obtain i o1 where a: "a = (i, o1)" by (cases a)
  obtain r p where cp: "configure_plotobject X pc o1 i (st o1) = (r, p)"
    by (cases "configure_plotobject X pc o1 i (st o1)")
  from Cons.prems have ne: "obj \<noteq> o1" and rest: "obj \<notin> snd ` set xs" by (auto simp: a)
  show ?case using Cons.IH[OF rest, of "st(o1 := p)"] cp ne
    by (cases r) (simp_all add: a fun_upd_def)
qed

lemma py_str_small: "py_str 0 = ''0''" "py_str (Suc 0) = ''1''"
  by (simp_all add: py_str.simps digit_chars_def)

lemma strategy_not_traversed:
  "is_strategy X d \<Longrightarrow> d \<notin> set (concat (map snd objs)) \<Longrightarrow> d \<notin> set (traversal X objs)"
  by (induction objs) (auto simp: traversal_def)

lemma sample_traversal: "traversal sample_ext [(12, []), (10, [11])] = [10, 11]"
  by (simp add: traversal_def sample_ext_sel)

lemma sample_pass_10:
  "configure_plotobject sample_ext None 10 0 Map.empty
     = (None, [''plotid'' \<mapsto> VStr ''DATA0'', ''plotorder'' \<mapsto> VInt 0])"
  by (simp add: configure_plotobject_def patch_defaults_def sample_ext_sel sample_type_simps
      py_str_small)

lemma sample_pass_11:
  "configure_plotobject sample_ext None 11 (Suc 0) Map.empty
     = (None, [''plotid'' \<mapsto> VStr ''IND1'', ''plotorder'' \<mapsto> VInt 0])"
  by (simp add: configure_plotobject_def patch_defaults_def sample_ext_sel sample_type_simps
      py_str_small)

lemma sample_pass:
  "configure_seq sample_ext None [(0, 10), (Suc 0, 11)] (\<lambda>obj. Map.empty)
     = (None, (\<lambda>obj. Map.empty)
          (10 := [''plotid'' \<mapsto> VStr ''DATA0'', ''plotorder'' \<mapsto> VInt 0],
           11 := [''plotid'' \<mapsto> VStr ''IND1'', ''plotorder'' \<mapsto> VInt 0]))"
  by (simp add: sample_pass_10 sample_pass_11)

text \<open>
  Claim C9: in the traversal of \<open>_configure_plotting\<close> a master that is the strategy
  is skipped. The traversal does what the flat sequence of the remaining objects
  (every other master followed by its children, the children of a strategy alone)
  does when each object is configured with its position in that sequence as ordinal,
  counted from the starting value of the counter, which is 0 in \<open>_configure_plotting\<close>;
  on success the counter has advanced by the length of that sequence. A strategy that
  is not also a child of some master keeps its \<open>plotinfo\<close> untouched.
\<close>

theorem strategy_master_excluded:
  "drop_counter (configure_objs X pc objs i st)
     = configure_seq X pc (enumerate i (traversal X objs)) st
   \<and> (fst (configure_objs X pc objs i st) = None
        \<longrightarrow> fst (snd (configure_objs X pc objs i st)) = i + length (traversal X objs))
   \<and> (\<forall>d. is_strategy X d \<and> d \<notin> set (concat (map snd objs))
        \<longrightarrow> snd (snd (configure_objs X pc objs i st)) d = st d)
   \<and> (\<forall>fp s. figurepages A figid = Some fp \<and> fp_strategy fp = Some s
        \<longrightarrow> configure_plotting X figid A
              = (case configure_seq X (plotconfig A)
                        (enumerate 0 (traversal X (get_plotobjs s True False (store A))))
                        (store A) of
                   (e, st') \<Rightarrow> (e, A\<lparr>store := st'\<rparr>)))"
proof -
  note flat = configure_objs_seq[of X pc objs i st]
  have frame: "\<forall>d. is_strategy X d \<and> d \<notin> set (concat (map snd objs))
        \<longrightarrow> snd (snd (configure_objs X pc objs i st)) d = st d"
  proof (intro allI impI)
    fix d assume d: "is_strategy X d \<and> d \<notin> set (concat (map snd objs))"
    then have "d \<notin> set (traversal X objs)" by (simp add: strategy_not_traversed)
    then have "d \<notin> snd ` set (enumerate i (traversal X objs))"
      by (simp flip: set_map)
    from configure_seq_frame[OF this, of X pc st]
    show "snd (snd (configure_objs X pc objs i st)) d = st d"
      using flat[THEN conjunct1] by (simp add: drop_counter_def flip: flat[THEN conjunct1])
  qed
  have page: "\<forall>fp s. figurepages A figid = Some fp \<and> fp_strategy fp = Some s
        \<longrightarrow> configure_plotting X figid A
              = (case configure_seq X (plotconfig A)
                        (enumerate 0 (traversal X (get_plotobjs s True False (store A))))
                        (store A) of
                   (e, st') \<Rightarrow> (e, A\<lparr>store := st'\<rparr>))"
  proof (intro allI impI)
    fix fp s assume b: "figurepages A figid = Some fp \<and> fp_strategy fp = Some s"
    let ?objs = "get_plotobjs s True False (store A)"
    obtain e j st' where r: "configure_objs X (plotconfig A) ?objs 0 (store A) = (e, j, st')"
      by (cases "configure_objs X (plotconfig A) ?objs 0 (store A)")
    from configure_objs_seq[of X "plotconfig A" ?objs 0 "store A", THEN conjunct1]
    have "configure_seq X (plotconfig A) (enumerate 0 (traversal X ?objs)) (store A) = (e, st')"
      by (simp add: r drop_counter_def)
    with b r show "configure_plotting X figid A
              = (case configure_seq X (plotconfig A)
                        (enumerate 0 (traversal X ?objs)) (store A) of
                   (e, st') \<Rightarrow> (e, A\<lparr>store := st'\<rparr>))"
      by (simp add: configure_plotting_def get_figurepage_def)
  qed
  from flat frame page show ?thesis by blast
qed

theorem strategy_master_excluded_witness:
  "is_strategy sample_ext 12 \<and> 12 \<notin> set (concat (map snd [(12 :: nat, []), (10, [11 :: nat])]))
   \<and> snd (snd (configure_objs sample_ext None [(12, []), (10, [11])] 0 (\<lambda>obj. Map.empty))) 12
       = Map.empty
   \<and> snd (snd (configure_objs sample_ext None [(12, []), (10, [11])] 0 (\<lambda>obj. Map.empty))) 10
       = [''plotid'' \<mapsto> VStr ''DATA0'', ''plotorder'' \<mapsto> VInt 0]
   \<and> snd (snd (configure_objs sample_ext None [(12, []), (10, [11])] 0 (\<lambda>obj. Map.empty))) 11
       = [''plotid'' \<mapsto> VStr ''IND1'', ''plotorder'' \<mapsto> VInt 0]"
proof -
  note T = strategy_master_excluded[of sample_ext None "[(12, []), (10, [11])]" 0
      "\<lambda>obj. Map.empty" sample_app 0]
  have h: "is_strategy sample_ext 12 \<and> 12 \<notin> set (concat (map snd [(12 :: nat, []), (10, [11 :: nat])]))"
    by (simp add: sample_ext_sel)
  from T have frame: "\<forall>d. is_strategy sample_ext d \<and> d \<notin> set (concat (map snd [(12 :: nat, []), (10, [11 :: nat])]))
        \<longrightarrow> snd (snd (configure_objs sample_ext None [(12, []), (10, [11])] 0 (\<lambda>obj. Map.empty))) d
              = Map.empty"
    by (rule conjunct2[THEN conjunct2, THEN conjunct1])
  from frame h have a: "snd (snd (configure_objs sample_ext None [(12, []), (10, [11])] 0
      (\<lambda>obj. Map.empty))) 12 = Map.empty"
    by blast
  from T have "drop_counter (configure_objs sample_ext None [(12, []), (10, [11])] 0 (\<lambda>obj. Map.empty))
     = configure_seq sample_ext None (enumerate 0 (traversal sample_ext [(12, []), (10, [11])]))
         (\<lambda>obj. Map.empty)"
    by (rule conjunct1)
  then have st: "snd (snd (configure_objs sample_ext None [(12, []), (10, [11])] 0 (\<lambda>obj. Map.empty)))
     = (\<lambda>obj. Map.empty)
          (10 := [''plotid'' \<mapsto> VStr ''DATA0'', ''plotorder'' \<mapsto> VInt 0],
           11 := [''plotid'' \<mapsto> VStr ''IND1'', ''plotorder'' \<mapsto> VInt 0])"
    by (simp only: sample_traversal enumerate_simps sample_pass drop_counter_def prod.inject)
  have b: "snd (snd (configure_objs sample_ext None [(12, []), (10, [11])] 0 (\<lambda>obj. Map.empty))) 10
       = [''plotid'' \<mapsto> VStr ''DATA0'', ''plotorder'' \<mapsto> VInt 0]"
    unfolding st by simp
  have c: "snd (snd (configure_objs sample_ext None [(12, []), (10, [11])] 0 (\<lambda>obj. Map.empty))) 11
       = [''plotid'' \<mapsto> VStr ''IND1'', ''plotorder'' \<mapsto> VInt 0]"
    unfolding st by simp
  from h a b c show ?thesis by (intro conjI) simp_all
qed

lemma py_str_nonempty: "py_str n \<noteq> []"
  by (subst py_str.simps) simp

lemma digit_chars_inj:
  "a < 10 \<Longrightarrow> b < 10 \<Longrightarrow> digit_chars ! a = digit_chars ! b \<Longrightarrow> a = b"
proof -
  assume a: "a < 10" and b: "b < 10" and e: "digit_chars ! a = digit_chars ! b"
  have d: "distinct digit_chars" by (simp add: digit_chars_def)
  have l: "length digit_chars = 10" by (simp add: digit_chars_def)
  from d a b e l show "a = b" by (simp add: nth_eq_iff_index_eq)
qed

lemma py_str_inj: "py_str n = py_str m \<Longrightarrow> n = m"
proof (induction n arbitrary: m rule: py_str.induct)
  case (1 n)
  show ?case
  proof (cases "n < 10")
    case nsmall: True
    show ?thesis
    proof (cases "m < 10")
      case True
      with nsmall "1.prems" have "digit_chars ! n = digit_chars ! m"
        by (simp add: py_str.simps[of n] py_str.simps[of m])
      with nsmall True show ?thesis by (rule digit_chars_inj)
    next
      case False
      with nsmall "1.prems" have "[digit_chars ! n] = py_str (m div 10) @ [digit_chars ! (m mod 10)]"
        by (simp add: py_str.simps[of n] py_str.simps[of m])
      then have "py_str (m div 10) = []" by simp
      with py_str_nonempty show ?thesis by blast
    qed
  next
    case nbig: False
    show ?thesis
    proof (cases "m < 10")
      case True
      with nbig "1.prems" have "py_str (n div 10) @ [digit_chars ! (n mod 10)] = [digit_chars ! m]"
        by (simp add: py_str.simps[of n] py_str.simps[of m])
      then have "py_str (n div 10) = []" by simp
      with py_str_nonempty show ?thesis by blast
    next
      case False
      with nbig "1.prems"
      have e: "py_str (n div 10) @ [digit_chars ! (n mod 10)]
                 = py_str (m div 10) @ [digit_chars ! (m mod 10)]"
        by (simp add: py_str.simps[of n] py_str.simps[of m])
      then have "py_str (n div 10) = py_str (m div 10)"
        and dg: "digit_chars ! (n mod 10) = digit_chars ! (m mod 10)"
        by simp_all
      with "1.IH"[OF nbig] have q: "n div 10 = m div 10" by blast
      have "n mod 10 = m mod 10" using dg by (intro digit_chars_inj) simp_all
      with q show ?thesis by (metis div_mult_mod_eq)
    qed
  qed
qed

lemma type_name_prefix:
  "type_name t @ a = type_name t' @ b \<Longrightarrow> a = b"
  by (cases t; cases t') simp_all

lemma apply_config_other: "k \<notin> fst ` set cfg \<Longrightarrow> apply_config p cfg k = p k"
  by (induction cfg arbitrary: p) auto

lemma config_loop_keeps:
  assumes "\<forall>(k', cfg) \<in> set rules. key \<notin> fst ` set cfg"
  shows "snd (config_loop X obj idx rules p) key = p key"
  using assms
proof (induction rules arbitrary: p)
  case Nil
  then show ?case by simp
next
  case (Cons a rules)
  obtain k cfg where a: "a = (k, cfg)" by (cases a)
  from Cons.prems have here: "key \<notin> fst ` set cfg"
    and rest: "\<forall>(k', cfg) \<in> set rules. key \<notin> fst ` set cfg"
    by (auto simp: a)
  show ?case
  proof (cases "rule_applies X obj p idx k")
    case (Inl e)
    then show ?thesis by (simp add: a)
  next
    case (Inr b)
    with Cons.IH[OF rest] here show ?thesis
      by (simp add: a apply_config_other)
  qed
qed

lemma configure_plotobject_plotid:
  assumes "configure_plotobject X pc obj idx p = (None, p')" and "keeps_plotid pc"
  shows "p' ''plotid'' =
           (if ''plotid'' \<in> dom p then p ''plotid''
            else Some (VStr (type_name (the (get_type X obj)) @ py_str idx)))"
proof -
  from assms(1) obtain p1 where pd: "patch_defaults X obj idx p = Inr p1"
    by (cases "patch_defaults X obj idx p") (simp_all add: configure_plotobject_def)
  have p1: "p1 ''plotid'' =
           (if ''plotid'' \<in> dom p then p ''plotid''
            else Some (VStr (type_name (the (get_type X obj)) @ py_str idx)))"
    using pd by (auto simp: patch_defaults_def split: if_splits option.splits)
  show ?thesis
  proof (cases pc)
    case None
    with assms(1) pd p1 show ?thesis by (simp add: configure_plotobject_def)
  next
    case (Some rules)
    with assms(2) have "\<forall>(k', cfg) \<in> set rules. ''plotid'' \<notin> fst ` set cfg"
      by (simp add: keeps_plotid_def)
    from config_loop_keeps[OF this, of X obj idx p1]
    have "snd (config_loop X obj idx rules p1) ''plotid'' = p1 ''plotid''" .
    with assms(1) pd Some p1 show ?thesis by (simp add: configure_plotobject_def)
  qed
qed

lemma configure_seq_plotid:
  assumes "fst (configure_seq X pc xs st) = None" and "keeps_plotid pc"
  shows "snd (configure_seq X pc xs st) obj ''plotid'' =
           (if ''plotid'' \<in> dom (st obj) then st obj ''plotid''
            else (case find (\<lambda>(i, o'). o' = obj) xs of
                    None \<Rightarrow> None
                  | Some (i, o') \<Rightarrow>
                      Some (VStr (type_name (the (get_type X obj)) @ py_str i))))"
  using assms(1)
proof (induction xs arbitrary: st)
  case Nil
  then show ?case by (auto simp: dom_def)
next
  case (Cons a xs)
  obtain i o1 where a: "a = (i, o1)" by (cases a)
  obtain r p where cp: "configure_plotobject X pc o1 i (st o1) = (r, p)"
    by (cases "configure_plotobject X pc o1 i (st o1)")
  from Cons.prems cp have r: "r = None"
    by (cases r) (simp_all add: a)
  with Cons.prems cp have ok: "fst (configure_seq X pc xs (st(o1 := p))) = None"
    and unf: "configure_seq X pc (a # xs) st = configure_seq X pc xs (st(o1 := p))"
    by (simp_all add: a)
  note IH = Cons.IH[OF ok]
  note pid = configure_plotobject_plotid[OF cp[unfolded r] assms(2)]
  show ?case
  proof (cases "obj = o1")
    case True
    have "''plotid'' \<in> dom p" using pid by (auto simp: dom_def split: if_splits)
    with IH True have "snd (configure_seq X pc xs (st(o1 := p))) obj ''plotid'' = p ''plotid''"
      by (simp add: fun_upd_def)
    with pid True show ?thesis unfolding unf by (simp add: a)
  next
    case False
    with IH show ?thesis unfolding unf by (simp add: a fun_upd_def)
  qed
qed

lemma find_SomeD: "find P xs = Some x \<Longrightarrow> x \<in> set xs \<and> P x"
  by (induction xs) (auto split: if_splits)

lemma first_ordinal:
  assumes "obj \<in> set objs"
  shows "\<exists>j. find (\<lambda>(i, o'). o' = obj) (enumerate n objs) = Some (j, obj)
             \<and> (j, obj) \<in> set (enumerate n objs)"
proof (cases "find (\<lambda>(i, o'). o' = obj) (enumerate n objs)")
  case None
  then have "\<not> (\<exists>x. x \<in> set (enumerate n objs) \<and> (\<lambda>(i, o'). o' = obj) x)"
    by (simp only: find_None_iff simp_thms)
  moreover from assms have "obj \<in> snd ` set (enumerate n objs)"
    by (simp flip: set_map)
  ultimately show ?thesis by force
next
  case (Some x)
  obtain j o' where x: "x = (j, o')" by (cases x)
  from find_SomeD[OF Some] have "x \<in> set (enumerate n objs)" and "(\<lambda>(i, o'). o' = obj) x"
    by simp_all
  with x Some show ?thesis by auto
qed

lemma ordinal_determines:
  "(j, a) \<in> set (enumerate n objs) \<Longrightarrow> (j, b) \<in> set (enumerate n objs) \<Longrightarrow> a = b"
  by (auto simp: in_set_enumerate_eq)

lemma sample_objs_ok:
  "fst (configure_objs sample_ext None [(12, []), (10, [11])] 0 (\<lambda>obj. Map.empty)) = None"
proof -
  from configure_objs_seq[of sample_ext None "[(12, []), (10, [11])]" 0 "\<lambda>obj. Map.empty",
      THEN conjunct1]
  have "fst (drop_counter (configure_objs sample_ext None [(12, []), (10, [11])] 0
          (\<lambda>obj. Map.empty))) = None"
    by (simp only: sample_traversal enumerate_simps sample_pass fst_conv)
  then show ?thesis by (simp only: drop_counter_def fst_conv)
qed

lemma preset_kept:
  "configure_plotobject sample_ext None obj i [''plotid'' \<mapsto> VStr ''sma'']
     = (None, [''plotid'' \<mapsto> VStr ''sma'', ''plotorder'' \<mapsto> VInt 0])"
  by (simp add: configure_plotobject_def patch_defaults_def)

lemma preset_pass:
  "configure_objs sample_ext None [(12, []), (10, [11])] 0 (\<lambda>obj. [''plotid'' \<mapsto> VStr ''sma''])
     = (None, 2, (\<lambda>obj. [''plotid'' \<mapsto> VStr ''sma''])
          (10 := [''plotid'' \<mapsto> VStr ''sma'', ''plotorder'' \<mapsto> VInt 0],
           11 := [''plotid'' \<mapsto> VStr ''sma'', ''plotorder'' \<mapsto> VInt 0]))"
  by (simp add: sample_ext_sel preset_kept)

text \<open>
  Claim C5 holds that after the pass every plot object has a non-empty \<open>plotid\<close> and
  no two objects share one. The pass assigns a \<open>plotid\<close> only to an object that has
  none (the \<open>hasattr\<close> guard of line 131): two indicators that both come with the
  preset \<open>plotid\<close> \<open>sma\<close> still share it after a pass that ran to its end.
\<close>

theorem preset_plotids_counterexample:
  "fst (configure_objs sample_ext None [(12, []), (10, [11])] 0
          (\<lambda>obj. [''plotid'' \<mapsto> VStr ''sma''])) = None
   \<and> (10 :: nat) \<noteq> 11
   \<and> snd (snd (configure_objs sample_ext None [(12, []), (10, [11])] 0
          (\<lambda>obj. [''plotid'' \<mapsto> VStr ''sma'']))) 10 ''plotid'' = Some (VStr ''sma'')
   \<and> snd (snd (configure_objs sample_ext None [(12, []), (10, [11])] 0
          (\<lambda>obj. [''plotid'' \<mapsto> VStr ''sma'']))) 11 ''plotid'' = Some (VStr ''sma'')"
  unfolding preset_pass by simp

text \<open>
  Claim C5, amended: when the pass runs to its end and no configured rule sets
  \<open>plotid\<close>, every configured object that had a \<open>plotid\<close> keeps it, every configured
  object that had none has a non-empty one afterwards, and two different objects that
  both had none have different ones.
\<close>

theorem default_plotids_distinct:
  assumes "fst (configure_objs X pc objs 0 st) = None" and "keeps_plotid pc"
  shows "(\<forall>obj \<in> set (traversal X objs). ''plotid'' \<in> dom (st obj) \<longrightarrow>
            snd (snd (configure_objs X pc objs 0 st)) obj ''plotid'' = st obj ''plotid'')
       \<and> (\<forall>obj \<in> set (traversal X objs). ''plotid'' \<notin> dom (st obj) \<longrightarrow>
            (\<exists>s. snd (snd (configure_objs X pc objs 0 st)) obj ''plotid'' = Some (VStr s)
                 \<and> s \<noteq> []))
       \<and> (\<forall>obj \<in> set (traversal X objs). \<forall>obj' \<in> set (traversal X objs).
            ''plotid'' \<notin> dom (st obj) \<and> ''plotid'' \<notin> dom (st obj') \<and> obj \<noteq> obj' \<longrightarrow>
            snd (snd (configure_objs X pc objs 0 st)) obj ''plotid''
              \<noteq> snd (snd (configure_objs X pc objs 0 st)) obj' ''plotid'')"
proof -
  let ?T = "traversal X objs"
  let ?xs = "enumerate 0 ?T"
  let ?st' = "snd (snd (configure_objs X pc objs 0 st))"
  from configure_objs_seq[of X pc objs 0 st, THEN conjunct1]
  have flat: "configure_seq X pc ?xs st = (fst (configure_objs X pc objs 0 st), ?st')"
    by (simp add: drop_counter_def)
  with assms(1) have ok: "fst (configure_seq X pc ?xs st) = None"
    and st': "snd (configure_seq X pc ?xs st) = ?st'"
    by simp_all
  note pid = configure_seq_plotid[OF ok assms(2), unfolded st']
  have fresh: "\<exists>j. (j, obj) \<in> set ?xs
                 \<and> ?st' obj ''plotid'' = Some (VStr (type_name (the (get_type X obj)) @ py_str j))"
    if "obj \<in> set ?T" and "''plotid'' \<notin> dom (st obj)" for obj
  proof -
    from first_ordinal[OF that(1), of 0] obtain j
      where "find (\<lambda>(i, o'). o' = obj) ?xs = Some (j, obj)" and "(j, obj) \<in> set ?xs"
      by blast
    with pid[of obj] that(2) show ?thesis by auto
  qed
  have kept: "\<forall>obj \<in> set ?T. ''plotid'' \<in> dom (st obj) \<longrightarrow> ?st' obj ''plotid'' = st obj ''plotid''"
    using pid by simp
  have nonempty: "\<forall>obj \<in> set ?T. ''plotid'' \<notin> dom (st obj) \<longrightarrow>
            (\<exists>s. ?st' obj ''plotid'' = Some (VStr s) \<and> s \<noteq> [])"
  proof (intro ballI impI)
    fix obj assume "obj \<in> set ?T" and "''plotid'' \<notin> dom (st obj)"
    from fresh[OF this] obtain j where
      "?st' obj ''plotid'' = Some (VStr (type_name (the (get_type X obj)) @ py_str j))"
      by blast
    moreover have "type_name (the (get_type X obj)) @ py_str j \<noteq> []"
      by (simp add: py_str_nonempty)
    ultimately show "\<exists>s. ?st' obj ''plotid'' = Some (VStr s) \<and> s \<noteq> []" by blast
  qed
  have distinct: "\<forall>obj \<in> set ?T. \<forall>obj' \<in> set ?T.
            ''plotid'' \<notin> dom (st obj) \<and> ''plotid'' \<notin> dom (st obj') \<and> obj \<noteq> obj' \<longrightarrow>
            ?st' obj ''plotid'' \<noteq> ?st' obj' ''plotid''"
  proof (intro ballI impI notI)
    fix obj obj'
    assume m: "obj \<in> set ?T" and m': "obj' \<in> set ?T"
      and h: "''plotid'' \<notin> dom (st obj) \<and> ''plotid'' \<notin> dom (st obj') \<and> obj \<noteq> obj'"
      and eq: "?st' obj ''plotid'' = ?st' obj' ''plotid''"
    from h have l: "''plotid'' \<notin> dom (st obj)" and l': "''plotid'' \<notin> dom (st obj')"
      and ne: "obj \<noteq> obj'" by simp_all
    from fresh[OF m l] obtain j where j: "(j, obj) \<in> set ?xs"
      and v: "?st' obj ''plotid'' = Some (VStr (type_name (the (get_type X obj)) @ py_str j))"
      by blast
    from fresh[OF m' l'] obtain j' where j': "(j', obj') \<in> set ?xs"
      and v': "?st' obj' ''plotid'' = Some (VStr (type_name (the (get_type X obj')) @ py_str j'))"
      by blast
    from eq v v' have "type_name (the (get_type X obj)) @ py_str j
                         = type_name (the (get_type X obj')) @ py_str j'"
      by simp
    then have "py_str j = py_str j'" by (rule type_name_prefix)
    then have "j = j'" by (rule py_str_inj)
    with j j' have "obj = obj'" by (auto dest: ordinal_determines)
    with ne show False by simp
  qed
  from kept nonempty distinct show ?thesis by (intro conjI)
qed

theorem default_plotids_distinct_witness:
  "fst (configure_objs sample_ext None [(12, []), (10, [11])] 0 (\<lambda>obj. Map.empty)) = None
   \<and> keeps_plotid None
   \<and> snd (snd (configure_objs sample_ext None [(12, []), (10, [11])] 0 (\<lambda>obj. Map.empty)))
         10 ''plotid''
       \<noteq> snd (snd (configure_objs sample_ext None [(12, []), (10, [11])] 0 (\<lambda>obj. Map.empty)))
         11 ''plotid''"
proof -
  have k: "keeps_plotid None" by (simp add: keeps_plotid_def)
  note T = default_plotids_distinct[OF sample_objs_ok k, unfolded sample_traversal]
  from T have "\<forall>obj \<in> set [10, 11]. \<forall>obj' \<in> set [10, 11].
            ''plotid'' \<notin> dom (Map.empty :: plotinfo) \<and> ''plotid'' \<notin> dom (Map.empty :: plotinfo)
              \<and> obj \<noteq> obj' \<longrightarrow>
            snd (snd (configure_objs sample_ext None [(12, []), (10, [11])] 0 (\<lambda>obj. Map.empty)))
                obj ''plotid''
              \<noteq> snd (snd (configure_objs sample_ext None [(12, []), (10, [11])] 0
                    (\<lambda>obj. Map.empty))) obj' ''plotid''"
    by (rule conjunct2[THEN conjunct2])
  then have "snd (snd (configure_objs sample_ext None [(12, []), (10, [11])] 0 (\<lambda>obj. Map.empty)))
         10 ''plotid''
       \<noteq> snd (snd (configure_objs sample_ext None [(12, []), (10, [11])] 0 (\<lambda>obj. Map.empty)))
         11 ''plotid''"
    by simp
  with sample_objs_ok k show ?thesis by (intro conjI)
qed

section \<open>Figure composition\<close>























section \<open>The order of the figures\<close>

lemma data_sort_fold_None:
  "fold (\<lambda>(i, d) m. m(Some d \<mapsto> i)) xs m None = m None"
  by (induction xs arbitrary: m) (auto split: prod.splits)

lemma data_sort_fold_notin:
  "d \<notin> set names \<Longrightarrow>
     fold (\<lambda>(i, d) m. m(Some d \<mapsto> i)) (enumerate n names) m (Some d) = m (Some d)"
  by (induction names arbitrary: n m) auto

lemma data_sort_fold_at:
  "distinct names \<Longrightarrow> i < length names \<Longrightarrow>
     fold (\<lambda>(i, d) m. m(Some d \<mapsto> i)) (enumerate n names) m (Some (names ! i)) = Some (n + i)"
proof (induction names arbitrary: n m i)
  case Nil
  then show ?case by simp
next
  case (Cons x xs)
  show ?case
  proof (cases i)
    case 0
    from Cons.prems have "x \<notin> set xs" by simp
    from data_sort_fold_notin[OF this, of "Suc n" "m(Some x \<mapsto> n)"] 0 show ?thesis
      by (simp add: fun_upd_def)
  next
    case (Suc j)
    with Cons.prems Cons.IH[of j "Suc n" "m(Some x \<mapsto> n)"] show ?thesis by simp
  qed
qed

lemma data_sort_fold_in:
  "d \<in> set names \<Longrightarrow>
     fold (\<lambda>(i, d) m. m(Some d \<mapsto> i)) (enumerate n names) m (Some d) \<noteq> None"
proof (induction names arbitrary: n m)
  case Nil
  then show ?case by simp
next
  case (Cons x xs)
  show ?case
  proof (cases "d \<in> set xs")
    case True
    from Cons.IH[OF this] show ?thesis by simp
  next
    case False
    with Cons.prems have dx: "d = x" by simp
    from False dx have "x \<notin> set xs" by simp
    from data_sort_fold_notin[OF this, of "Suc n" "m(Some x \<mapsto> n)"] dx show ?thesis
      by (simp add: fun_upd_def)
  qed
qed

lemma data_sort_None: "data_sort names None = Some 0"
  by (simp add: data_sort_def data_sort_fold_None)

lemma data_sort_at:
  "distinct names \<Longrightarrow> i < length names \<Longrightarrow> data_sort names (Some (names ! i)) = Some (Suc i)"
  by (simp add: data_sort_def data_sort_fold_at)

lemma data_sort_known:
  assumes "dn = None \<or> (\<exists>d \<in> set names. dn = Some d)"
  shows "data_sort names dn \<noteq> None"
  using assms
proof
  assume "dn = None"
  then show ?thesis by (simp add: data_sort_None)
next
  assume "\<exists>d \<in> set names. dn = Some d"
  then obtain d where d: "d \<in> set names" and dn: "dn = Some d" by blast
  show ?thesis unfolding data_sort_def dn using d by (rule data_sort_fold_in)
qed

lemma triple_le_iff:
  "(a, b, c) \<le> (a', b', c') \<longleftrightarrow>
     a < a' \<or> (a = a' \<and> (b < b' \<or> (b = b' \<and> c \<le> c')))"
  for a a' :: int and b b' :: nat and c c' :: int
  by (auto simp: less_eq_prod_def)

lemma order_app_sel:
  "figurepages order_app 0
     = Some ((FigurePage (Strategy order_strategy))\<lparr>figures := order_figs\<rparr>)"
  "store order_app = order_store"
  by (simp_all add: order_app_def sample_app_def)

lemma order_page_strategy:
  "fp_strategy ((FigurePage (Strategy order_strategy))\<lparr>figures := order_figs\<rparr>)
     = Some order_strategy"
  by (simp add: fp_strategy_def FigurePage_def)

lemma order_ext_sel:
  "get_dataname order_ext = (\<lambda>obj. if obj = 20 then Some ''data1'' else Some ''data0'')"
  "type_value order_ext = (\<lambda>t. case t of OBS \<Rightarrow> 0 | DATA \<Rightarrow> 1 | VOL \<Rightarrow> 2 | IND \<Rightarrow> 3)"
  "get_plotorder order_ext order_store f = (if master f = 10 then 5 else 0)"
  by (simp_all add: order_ext_def sample_ext_def order_store_def)

lemma order_datanames: "get_datanames order_strategy = [''data0'', ''data1'']"
  by (simp add: order_strategy_def)

lemma order_data_sort:
  "data_sort [''data0'', ''data1''] None = Some 0"
  "data_sort [''data0'', ''data1''] (Some ''data0'') = Some 1"
  "data_sort [''data0'', ''data1''] (Some ''data1'') = Some 2"
  by (simp_all add: data_sort_def)

lemma order_keys:
  "fig_key order_ext order_store (data_sort [''data0'', ''data1'']) order_vol10 = (5, 1, 2)"
  "fig_key order_ext order_store (data_sort [''data0'', ''data1'']) order_data20 = (0, 2, 1)"
  "fig_key order_ext order_store (data_sort [''data0'', ''data1'']) order_ind21 = (0, 1, 3)"
  "fig_key order_ext order_store (data_sort [''data0'', ''data1'']) order_data10 = (5, 1, 1)"
  "fig_key order_ext order_store (data_sort [''data0'', ''data1'']) order_ind11 = (0, 1, 3)"
  by (simp_all add: fig_key_def order_ext_sel order_data_sort order_vol10_def order_data20_def
      order_ind21_def order_data10_def order_ind11_def)

lemma order_sorted:
  "sorted_figs order_ext 0 order_app
     = Inr [order_ind21, order_ind11, order_data20, order_data10, order_vol10]"
proof -
  have known: "list_all (\<lambda>f. data_sort [''data0'', ''data1''] (get_dataname order_ext (master f)) \<noteq> None)
      order_figs"
    by (simp add: order_figs_def order_ext_sel order_data_sort)
  have srt: "sort_key (fig_key order_ext order_store (data_sort [''data0'', ''data1'']))
      order_figs
      = [order_ind21, order_ind11, order_data20, order_data10, order_vol10]"
    by (simp add: order_figs_def sort_key_def order_keys less_eq_prod_def)
  have fg: "figures ((FigurePage (Strategy order_strategy))\<lparr>figures := order_figs\<rparr>)
              = order_figs"
    by simp
  show ?thesis
    unfolding sorted_figs_def get_figurepage_def
    by (simp only: order_app_sel option.case sum.case order_page_strategy Let_def
        order_datanames fg known if_True srt)
qed

text \<open>
  Claim C7: for a page with a strategy whose figures are all tied to the
  clock-irrelevant feed or to a declared feed, the figures are sorted by plot order,
  then by feed sort key, then by the value of the figure kind: the result is a
  permutation of the page's figures; of any two figures of the result, the earlier has
  the smaller plot order, or the same plot order and the smaller feed sort key, or the
  same plot order and feed sort key and a kind value that is not greater; and the
  figures that agree in all three keep their relative order. The feed sort key is 0 for
  the clock-irrelevant feed and, for distinct feed names, the position in the declared
  order counted from 1.
\<close>

theorem sorted_figs_stable_by_key:
  assumes "figurepages A figid = Some fp" and "fp_strategy fp = Some s"
    and "\<forall>f \<in> set (figures fp).
           get_dataname X (master f) = None
           \<or> (\<exists>d \<in> set (get_datanames s). get_dataname X (master f) = Some d)"
  shows "\<exists>out. sorted_figs X figid A = Inr out
       \<and> mset out = mset (figures fp)
       \<and> sorted_wrt (\<lambda>f g.
            get_plotorder X (store A) f < get_plotorder X (store A) g
            \<or> (get_plotorder X (store A) f = get_plotorder X (store A) g
               \<and> (the (data_sort (get_datanames s) (get_dataname X (master f)))
                    < the (data_sort (get_datanames s) (get_dataname X (master g)))
                  \<or> (the (data_sort (get_datanames s) (get_dataname X (master f)))
                       = the (data_sort (get_datanames s) (get_dataname X (master g)))
                     \<and> type_value X (ftype f) \<le> type_value X (ftype g))))) out
       \<and> (\<forall>po dk tv.
            filter (\<lambda>f. get_plotorder X (store A) f = po
                       \<and> the (data_sort (get_datanames s) (get_dataname X (master f))) = dk
                       \<and> type_value X (ftype f) = tv) out
            = filter (\<lambda>f. get_plotorder X (store A) f = po
                       \<and> the (data_sort (get_datanames s) (get_dataname X (master f))) = dk
                       \<and> type_value X (ftype f) = tv) (figures fp))
       \<and> data_sort (get_datanames s) None = Some 0
       \<and> (distinct (get_datanames s) \<longrightarrow>
            (\<forall>i < length (get_datanames s).
               data_sort (get_datanames s) (Some (get_datanames s ! i)) = Some (Suc i)))"
proof -
  let ?key = "fig_key X (store A) (data_sort (get_datanames s))"
  let ?out = "sort_key ?key (figures fp)"
  have known: "list_all (\<lambda>f. data_sort (get_datanames s) (get_dataname X (master f)) \<noteq> None)
                 (figures fp)"
    unfolding list_all_iff using assms(3) data_sort_known by blast
  have res: "sorted_figs X figid A = Inr ?out"
    using assms(1,2) known by (simp add: sorted_figs_def get_figurepage_def Let_def)
  have perm: "mset ?out = mset (figures fp)" by simp
  have "sorted (map ?key ?out)" by (rule sorted_sort_key)
  then have "sorted_wrt (\<lambda>f g. ?key f \<le> ?key g) ?out"
    by (simp add: sorted_map)
  then have srt: "sorted_wrt (\<lambda>f g.
            get_plotorder X (store A) f < get_plotorder X (store A) g
            \<or> (get_plotorder X (store A) f = get_plotorder X (store A) g
               \<and> (the (data_sort (get_datanames s) (get_dataname X (master f)))
                    < the (data_sort (get_datanames s) (get_dataname X (master g)))
                  \<or> (the (data_sort (get_datanames s) (get_dataname X (master f)))
                       = the (data_sort (get_datanames s) (get_dataname X (master g)))
                     \<and> type_value X (ftype f) \<le> type_value X (ftype g))))) ?out"
    by (simp only: fig_key_def triple_le_iff)
  have "\<forall>k. filter (\<lambda>f. ?key f = k) ?out = filter (\<lambda>f. ?key f = k) (figures fp)"
    by (simp add: sort_key_stable)
  then have "\<forall>po dk tv. filter (\<lambda>f. ?key f = (po, dk, tv)) ?out
                = filter (\<lambda>f. ?key f = (po, dk, tv)) (figures fp)"
    by blast
  then have stable: "\<forall>po dk tv.
            filter (\<lambda>f. get_plotorder X (store A) f = po
                       \<and> the (data_sort (get_datanames s) (get_dataname X (master f))) = dk
                       \<and> type_value X (ftype f) = tv) ?out
            = filter (\<lambda>f. get_plotorder X (store A) f = po
                       \<and> the (data_sort (get_datanames s) (get_dataname X (master f))) = dk
                       \<and> type_value X (ftype f) = tv) (figures fp)"
    by (simp only: fig_key_def prod.inject simp_thms)
  have first: "data_sort (get_datanames s) None = Some 0" by (rule data_sort_None)
  have order: "distinct (get_datanames s) \<longrightarrow>
            (\<forall>i < length (get_datanames s).
               data_sort (get_datanames s) (Some (get_datanames s ! i)) = Some (Suc i))"
    by (simp add: data_sort_at)
  from res perm srt stable first order show ?thesis by (intro exI[of _ ?out] conjI)
qed

theorem sorted_figs_stable_by_key_witness:
  "figurepages order_app 0
     = Some ((FigurePage (Strategy order_strategy))\<lparr>figures := order_figs\<rparr>)
   \<and> map master order_figs = [10, 20, 21, 10, 11]
   \<and> map ftype order_figs = [VOL, DATA, IND, DATA, IND]
   \<and> map (\<lambda>f. (get_plotorder order_ext (store order_app) f,
                the (data_sort (get_datanames order_strategy) (get_dataname order_ext (master f))),
                type_value order_ext (ftype f))) order_figs
       = [(5, 1, 2), (0, 2, 1), (0, 1, 3), (5, 1, 1), (0, 1, 3)]
   \<and> (\<exists>out. sorted_figs order_ext 0 order_app = Inr out
            \<and> mset out = mset order_figs
            \<and> map master out = [21, 11, 20, 10, 10]
            \<and> map ftype out = [IND, IND, DATA, DATA, VOL])"
proof -
  have h3: "\<forall>f \<in> set (figures ((FigurePage (Strategy order_strategy))\<lparr>figures := order_figs\<rparr>)).
           get_dataname order_ext (master f) = None
           \<or> (\<exists>d \<in> set (get_datanames order_strategy).
                 get_dataname order_ext (master f) = Some d)"
    by (simp add: order_ext_sel order_datanames)
  from sorted_figs_stable_by_key[OF order_app_sel(1) order_page_strategy h3]
  obtain out where out: "sorted_figs order_ext 0 order_app = Inr out"
    and perm: "mset out = mset (figures ((FigurePage (Strategy order_strategy))
                 \<lparr>figures := order_figs\<rparr>))"
    by blast
  from out have o: "out = [order_ind21, order_ind11, order_data20, order_data10, order_vol10]"
    by (simp add: order_sorted)
  have ms: "map master out = [21, 11, 20, 10, 10]"
    unfolding o by (simp add: order_vol10_def order_data20_def order_ind21_def
        order_data10_def order_ind11_def)
  have ty: "map ftype out = [IND, IND, DATA, DATA, VOL]"
    unfolding o by (simp add: order_vol10_def order_data20_def order_ind21_def
        order_data10_def order_ind11_def)
  have b1: "map master order_figs = [10, 20, 21, 10, 11]"
    by (simp add: order_figs_def order_vol10_def order_data20_def order_ind21_def
        order_data10_def order_ind11_def)
  have b2: "map ftype order_figs = [VOL, DATA, IND, DATA, IND]"
    by (simp add: order_figs_def order_vol10_def order_data20_def order_ind21_def
        order_data10_def order_ind11_def)
  have b3: "map (\<lambda>f. (get_plotorder order_ext (store order_app) f,
                the (data_sort (get_datanames order_strategy) (get_dataname order_ext (master f))),
                type_value order_ext (ftype f))) order_figs
       = [(5, 1, 2), (0, 2, 1), (0, 1, 3), (5, 1, 1), (0, 1, 3)]"
    using order_keys
    by (simp add: fig_key_def order_figs_def order_app_sel order_datanames)
  from perm have perm': "mset out = mset order_figs" by simp
  from out perm' ms ty have "\<exists>out. sorted_figs order_ext 0 order_app = Inr out
            \<and> mset out = mset order_figs
            \<and> map master out = [21, 11, 20, 10, 10]
            \<and> map ftype out = [IND, IND, DATA, DATA, VOL]"
    by (intro exI[of _ out] conjI)
  with order_app_sel(1) b1 b2 b3 show ?thesis by (intro conjI)
qed

section \<open>Unknown rule kinds\<close>

lemma unknown_kind_object:
  assumes "\<not> known_kind k"
  shows "(\<exists>e. fst (configure_plotobject X (Some (pre @ (k, config) # post)) obj idx pinfo)
              = Some e)
       \<and> snd (configure_plotobject X (Some (pre @ (k, config) # post)) obj idx pinfo)
           = snd (configure_plotobject X (Some pre) obj idx pinfo)"
proof (cases "patch_defaults X obj idx pinfo")
  case (Inl e)
  then show ?thesis by (simp add: configure_plotobject_def)
next
  case (Inr p1)
  obtain r p where pre: "config_loop X obj idx pre p1 = (r, p)"
    by (cases "config_loop X obj idx pre p1")
  obtain e where e: "rule_applies X obj p idx k = Inl e"
    using unknown_rule_raises[OF assms] by blast
  have "config_loop X obj idx (pre @ (k, config) # post) p1
          = (case r of Some e' \<Rightarrow> (Some e', p) | None \<Rightarrow> (Some e, p))"
    unfolding config_loop_append pre using e by (simp split: option.splits)
  with Inr pre show ?thesis
    by (cases r) (simp_all add: configure_plotobject_def)
qed

text \<open>
  Claim C8: a rule key whose kind is none of the three known ones makes
  \<open>_configure_plotobject\<close> raise when the loop reaches it, whatever the overrides of
  that rule and whatever rules follow; the object is left as the rules before it left
  it, so no override of the unknown rule or of a later rule is applied. The traversal
  of \<open>_configure_plotting\<close> stops with that error at the first object it configures,
  and no other object is touched.
\<close>

theorem unknown_kind_aborts:
  assumes "\<not> known_kind k"
  shows "(\<exists>e. fst (configure_plotobject X (Some (pre @ (k, config) # post)) obj idx pinfo)
              = Some e)
       \<and> snd (configure_plotobject X (Some (pre @ (k, config) # post)) obj idx pinfo)
           = snd (configure_plotobject X (Some pre) obj idx pinfo)
       \<and> (traversal X objs \<noteq> [] \<longrightarrow>
            (\<exists>e. fst (configure_objs X (Some (pre @ (k, config) # post)) objs i st) = Some e)
            \<and> (\<forall>obj'. obj' \<noteq> hd (traversal X objs) \<longrightarrow>
                  snd (snd (configure_objs X (Some (pre @ (k, config) # post)) objs i st)) obj'
                    = st obj'))"
proof -
  let ?pc = "Some (pre @ (k, config) # post)"
  note one = unknown_kind_object[OF assms, of X pre config post]
  have pass: "traversal X objs \<noteq> [] \<longrightarrow>
            (\<exists>e. fst (configure_objs X ?pc objs i st) = Some e)
            \<and> (\<forall>obj'. obj' \<noteq> hd (traversal X objs) \<longrightarrow>
                  snd (snd (configure_objs X ?pc objs i st)) obj' = st obj')"
  proof
    assume "traversal X objs \<noteq> []"
    then obtain x xs where tr: "traversal X objs = x # xs" by (cases "traversal X objs") auto
    obtain r p where cp: "configure_plotobject X ?pc x i (st x) = (r, p)"
      by (cases "configure_plotobject X ?pc x i (st x)")
    from one[of x i "st x"] cp obtain e where r: "r = Some e" by auto
    have "configure_seq X ?pc (enumerate i (traversal X objs)) st = (Some e, st(x := p))"
      by (simp add: tr cp r)
    with configure_objs_seq[of X ?pc objs i st, THEN conjunct1]
    have "drop_counter (configure_objs X ?pc objs i st) = (Some e, st(x := p))" by simp
    then have f: "fst (configure_objs X ?pc objs i st) = Some e"
      and s: "snd (snd (configure_objs X ?pc objs i st)) = st(x := p)"
      by (simp_all add: drop_counter_def)
    show "(\<exists>e. fst (configure_objs X ?pc objs i st) = Some e)
            \<and> (\<forall>obj'. obj' \<noteq> hd (traversal X objs) \<longrightarrow>
                  snd (snd (configure_objs X ?pc objs i st)) obj' = st obj')"
      unfolding s using f by (simp add: tr)
  qed
  from one[of obj idx pinfo] pass show ?thesis by (intro conjI) blast+
qed

theorem unknown_kind_aborts_witness:
  "\<not> known_kind ''x:SMA''
   \<and> (\<exists>e. fst (configure_plotobject sample_ext
               (Some [(''r:SM'', [(''color'', VStr ''red'')]),
                      (''x:SMA'', [(''color'', VStr ''blue'')]),
                      (''r:SMA'', [(''color'', VStr ''green'')])]) 11 0 Map.empty) = Some e)
   \<and> snd (configure_plotobject sample_ext
               (Some [(''r:SM'', [(''color'', VStr ''red'')]),
                      (''x:SMA'', [(''color'', VStr ''blue'')]),
                      (''r:SMA'', [(''color'', VStr ''green'')])]) 11 0 Map.empty)
       = [''plotid'' \<mapsto> VStr ''IND0'', ''plotorder'' \<mapsto> VInt 0, ''color'' \<mapsto> VStr ''red'']
   \<and> (\<exists>e. fst (configure_objs sample_ext
               (Some [(''r:SM'', [(''color'', VStr ''red'')]),
                      (''x:SMA'', [(''color'', VStr ''blue'')]),
                      (''r:SMA'', [(''color'', VStr ''green'')])])
               [(12, []), (10, [11])] 0 (\<lambda>obj. Map.empty)) = Some e)"
proof -
  have h: "\<not> known_kind ''x:SMA''" by (simp add: known_kind_def)
  note T = unknown_kind_aborts[OF h, of sample_ext "[(''r:SM'', [(''color'', VStr ''red'')])]"
      "[(''color'', VStr ''blue'')]" "[(''r:SMA'', [(''color'', VStr ''green'')])]" 11 0 Map.empty
      "[(12, []), (10, [11])]" 0 "\<lambda>obj. Map.empty",
      unfolded append.simps]
  have pd: "patch_defaults sample_ext 11 0 Map.empty
      = Inr [''plotid'' \<mapsto> VStr ''IND0'', ''plotorder'' \<mapsto> VInt 0]"
    by (simp add: patch_defaults_def sample_ext_sel sample_type_simps py_str.simps digit_chars_def)
  have r1: "rule_applies sample_ext 11 [''plotid'' \<mapsto> VStr ''IND0'', ''plotorder'' \<mapsto> VInt 0] 0 ''r:SM''
      = Inr True"
    by (simp add: rule_applies_def sample_ext_sel literal_compile_plain re_match_def
        literal_def)
  have pre: "configure_plotobject sample_ext (Some [(''r:SM'', [(''color'', VStr ''red'')])]) 11 0 Map.empty
      = (None, [''plotid'' \<mapsto> VStr ''IND0'', ''plotorder'' \<mapsto> VInt 0, ''color'' \<mapsto> VStr ''red''])"
    by (simp add: configure_plotobject_def pd r1)
  from T have e: "\<exists>e. fst (configure_plotobject sample_ext
               (Some [(''r:SM'', [(''color'', VStr ''red'')]),
                      (''x:SMA'', [(''color'', VStr ''blue'')]),
                      (''r:SMA'', [(''color'', VStr ''green'')])]) 11 0 Map.empty) = Some e"
    by (rule conjunct1)
  from T have "snd (configure_plotobject sample_ext
               (Some [(''r:SM'', [(''color'', VStr ''red'')]),
                      (''x:SMA'', [(''color'', VStr ''blue'')]),
                      (''r:SMA'', [(''color'', VStr ''green'')])]) 11 0 Map.empty)
       = snd (configure_plotobject sample_ext (Some [(''r:SM'', [(''color'', VStr ''red'')])])
                11 0 Map.empty)"
    by (rule conjunct2[THEN conjunct1])
  then have s: "snd (configure_plotobject sample_ext
               (Some [(''r:SM'', [(''color'', VStr ''red'')]),
                      (''x:SMA'', [(''color'', VStr ''blue'')]),
                      (''r:SMA'', [(''color'', VStr ''green'')])]) 11 0 Map.empty)
       = [''plotid'' \<mapsto> VStr ''IND0'', ''plotorder'' \<mapsto> VInt 0, ''color'' \<mapsto> VStr ''red'']"
    by (simp only: pre snd_conv)
  have ne: "traversal sample_ext [(12, []), (10, [11])] \<noteq> []"
    by (simp add: sample_traversal)
  from T ne have t: "\<exists>e. fst (configure_objs sample_ext
               (Some [(''r:SM'', [(''color'', VStr ''red'')]),
                      (''x:SMA'', [(''color'', VStr ''blue'')]),
                      (''r:SMA'', [(''color'', VStr ''green'')])])
               [(12, []), (10, [11])] 0 (\<lambda>obj. Map.empty)) = Some e"
    by blast
  from h e s t show ?thesis by (intro conjI)
qed

end
